theory Spec2Isabelle
  imports Main "HOL-Library.Word" "HOL-Library.Log_Nat"
begin

unbundle bit_operations_syntax

section \<open>GPS/PPS disciplined NTP server: the program\<close>

text \<open>
  A shallow embedding of \<^verbatim>\<open>PPS_Newaproach_V3.ino\<close>: the PPS probe \<^verbatim>\<open>initPPS\<close>,
  the interrupt handler \<^verbatim>\<open>PPS_ISR\<close>, the clock update \<^verbatim>\<open>readGPSTime\<close> and the
  NTP responder \<^verbatim>\<open>handleNTPRequest\<close>. Names are those of the sketch.
\<close>

subsection \<open>Machine types\<close>

type_synonym u8 = "8 word"
type_synonym u16 = "16 word"
type_synonym u32 = "32 word"

text \<open>
  \<^verbatim>\<open>struct timeval\<close>. \<^verbatim>\<open>time_t\<close> and \<^verbatim>\<open>suseconds_t\<close> are signed; the sketch never
  relies on their overflow, so both are integers here and every narrowing to 32 bits is
  written where the sketch narrows.
\<close>

record timeval =
  tv_sec :: int
  tv_usec :: int

subsection \<open>IEEE double arithmetic, as far as the sketch uses it\<close>

text \<open>
  The fraction of a timestamp is computed in \<^verbatim>\<open>double\<close>. A finite double is a rational
  number, so the arithmetic is modelled exactly: the real result of an operation is
  rounded to the nearest number with a 53-bit significand, ties to even
  (binary64, exponent at least \<open>-1022\<close>; the sketch's values stay far below the largest
  double, so overflow to infinity is not modelled).
\<close>

definition pow2 :: "int \<Rightarrow> rat" where
  "pow2 e = (if 0 \<le> e then 2 ^ nat e else 1 / 2 ^ nat (- e))"

text \<open>\<open>ilog2 x\<close> is the exponent \<open>e\<close> with \<open>2^e \<le> x < 2^(e+1)\<close>, for positive \<open>x\<close>.\<close>

definition ilog2 :: "rat \<Rightarrow> int" where
  "ilog2 x = (if 1 \<le> x then bitlen \<lfloor>x\<rfloor> - 1 else - bitlen (\<lceil>1 / x\<rceil> - 1))"

text \<open>Round to the nearest integer, ties to the even one.\<close>

definition rne :: "rat \<Rightarrow> int" where
  "rne q = (let f = \<lfloor>q\<rfloor>; r = q - of_int f in
            if r < 1 / 2 then f
            else if 1 / 2 < r then f + 1
            else if even f then f else f + 1)"

definition round_double :: "rat \<Rightarrow> rat" where
  "round_double x =
     (if x = 0 then 0
      else let e = max (ilog2 \<bar>x\<bar>) (- 1022); ulp = pow2 (e - 52)
           in of_int (rne (x / ulp)) * ulp)"

definition double_div :: "rat \<Rightarrow> rat \<Rightarrow> rat" where
  "double_div a b = round_double (a / b)"

definition double_mul :: "rat \<Rightarrow> rat \<Rightarrow> rat" where
  "double_mul a b = round_double (a * b)"

text \<open>
  \<^verbatim>\<open>(double)tv.tv_usec\<close>: \<^verbatim>\<open>suseconds_t\<close> is a 32-bit \<^verbatim>\<open>long\<close> on the ESP32, and every
  32-bit integer is a double, so the conversion is exact.
\<close>

definition long_to_double :: "int \<Rightarrow> rat" where
  "long_to_double n = of_int n"

text \<open>
  \<^verbatim>\<open>(uint32_t)d\<close>: C truncates towards zero. The conversion is defined by C only when
  the truncated value fits 32 bits (lemma \<open>ntp_fraction_in_range\<close> below shows it does
  for every \<^verbatim>\<open>tv_usec\<close> that \<^verbatim>\<open>gettimeofday\<close> returns); outside that range the model
  wraps.
\<close>

definition double_to_uint32 :: "rat \<Rightarrow> u32" where
  "double_to_uint32 d = word_of_int (if 0 \<le> d then \<lfloor>d\<rfloor> else \<lceil>d\<rceil>)"

subsection \<open>The NTP responder\<close>

text \<open>
  Lines 310 and 349: \<^verbatim>\<open>uint32_t recvSec = tv.tv_sec + 2208988800UL;\<close>
  The sum is narrowed to 32 bits by the assignment.
\<close>

definition ntp_seconds :: "timeval \<Rightarrow> u32" where
  "ntp_seconds tv = word_of_int (tv_sec tv + 2208988800)"

text \<open>
  Lines 311 and 350:
  \<^verbatim>\<open>uint32_t recvFrac = (uint32_t)((double)tv.tv_usec * (4294967296.0 / 1000000.0));\<close>
\<close>

definition ntp_fraction :: "timeval \<Rightarrow> u32" where
  "ntp_fraction tv =
     double_to_uint32 (double_mul (long_to_double (tv_usec tv)) (double_div 4294967296 1000000))"

text \<open>A datagram with the sender's address, as \<^verbatim>\<open>WiFiUDP\<close> presents it.\<close>

record udp_packet =
  remoteIP :: u32
  remotePort :: u16
  payload :: "u8 list"

text \<open>
  What the responder touches outside itself: the wall clock, read by \<^verbatim>\<open>gettimeofday\<close>,
  and the socket it writes to. The wall clock runs on its own, so it is an oracle
  \<open>wall\<close>: \<open>wall n\<close> is what the \<open>n\<close>-th call of \<^verbatim>\<open>gettimeofday\<close> returns; \<open>tod_calls\<close>
  counts the calls made so far. \<open>sent\<close> lists the datagrams written, oldest first,
  each with the address it went to.
\<close>

record net =
  tod_calls :: nat
  sent :: "udp_packet list"

datatype ntp_outcome = Replied | Ignored

text \<open>
  \<^verbatim>\<open>handleNTPRequest\<close> (lines 302-364). The third argument is the datagram that
  \<^verbatim>\<open>udp.parsePacket()\<close> finds: \<open>None\<close> when nothing is pending (it returns 0), else
  the packet, whose size is the length of its payload. \<^verbatim>\<open>udp.read(requestBuffer, 48)\<close>
  takes the first 48 bytes. \<^verbatim>\<open>responseBuffer\<close> is an uninitialised array on the stack:
  \<open>junk\<close> is whatever it holds at entry. The function returns nothing in C; the outcome
  names the branch taken.
\<close>

fun handleNTPRequest ::
  "(nat \<Rightarrow> timeval) \<Rightarrow> (nat \<Rightarrow> u8) \<Rightarrow> udp_packet option \<Rightarrow> net \<Rightarrow> ntp_outcome \<times> net" where
  "handleNTPRequest wall junk None w = (Ignored, w)"
| "handleNTPRequest wall junk (Some p) w =
    (if 48 \<le> length (payload p) then
       let requestBuffer = take 48 (payload p);
           tv = wall (tod_calls w);
           recvSec = ntp_seconds tv;
           recvFrac = ntp_fraction tv;
           rb = junk(0 := 0x24, 1 := 1, 2 := requestBuffer ! 2, 3 := - 6);
           rb = fold (\<lambda>i b. b(i := 0)) [4..<12] rb;
           rb = rb(12 := of_char CHR ''L'', 13 := of_char CHR ''O'',
                   14 := of_char CHR ''C'', 15 := of_char CHR ''L'');
           rb = rb(16 := ucast (drop_bit 24 recvSec AND 0xFF),
                   17 := ucast (drop_bit 16 recvSec AND 0xFF),
                   18 := ucast (drop_bit 8 recvSec AND 0xFF),
                   19 := ucast (recvSec AND 0xFF),
                   20 := ucast (drop_bit 24 recvFrac AND 0xFF),
                   21 := ucast (drop_bit 16 recvFrac AND 0xFF),
                   22 := ucast (drop_bit 8 recvFrac AND 0xFF),
                   23 := ucast (recvFrac AND 0xFF));
           rb = fold (\<lambda>i b. b(24 + i := requestBuffer ! (40 + i))) [0..<8] rb;
           rb = rb(32 := ucast (drop_bit 24 recvSec AND 0xFF),
                   33 := ucast (drop_bit 16 recvSec AND 0xFF),
                   34 := ucast (drop_bit 8 recvSec AND 0xFF),
                   35 := ucast (recvSec AND 0xFF),
                   36 := ucast (drop_bit 24 recvFrac AND 0xFF),
                   37 := ucast (drop_bit 16 recvFrac AND 0xFF),
                   38 := ucast (drop_bit 8 recvFrac AND 0xFF),
                   39 := ucast (recvFrac AND 0xFF));
           tv2 = wall (tod_calls w + 1);
           txSec = ntp_seconds tv2;
           txFrac = ntp_fraction tv2;
           rb = rb(40 := ucast (drop_bit 24 txSec AND 0xFF),
                   41 := ucast (drop_bit 16 txSec AND 0xFF),
                   42 := ucast (drop_bit 8 txSec AND 0xFF),
                   43 := ucast (txSec AND 0xFF),
                   44 := ucast (drop_bit 24 txFrac AND 0xFF),
                   45 := ucast (drop_bit 16 txFrac AND 0xFF),
                   46 := ucast (drop_bit 8 txFrac AND 0xFF),
                   47 := ucast (txFrac AND 0xFF))
       in (Replied,
           w\<lparr>tod_calls := tod_calls w + 2,
             sent := sent w @ [\<lparr>remoteIP = remoteIP p, remotePort = remotePort p,
                               payload = map rb [0..<48]\<rparr>]\<rparr>)
     else (Ignored, w))"

subsection \<open>The PPS edge latch and the disciplined clock\<close>

text \<open>
  The globals the clock update shares with the interrupt handler, and the system time
  that \<^verbatim>\<open>settimeofday\<close> sets (\<open>clock\<close> holds the value last set).
  \<open>isr_attached\<close> records the \<^verbatim>\<open>attachInterrupt\<close> of line 238.
\<close>

record sys =
  PPSsignal :: bool
  PPSavailable :: bool
  isr_attached :: bool
  clock :: timeval

text \<open>Lines 211-213.\<close>

definition PPS_ISR :: "sys \<Rightarrow> sys" where
  "PPS_ISR s = s\<lparr>PPSsignal := True\<rparr>"

definition settimeofday :: "timeval \<Rightarrow> sys \<Rightarrow> sys" where
  "settimeofday tv s = s\<lparr>clock := tv\<rparr>"

subsection \<open>The start-up probe\<close>

text \<open>
  \<^verbatim>\<open>initPPS\<close> (lines 215-243). Time is counted in milliseconds since boot: \<open>t\<close> is
  the current time, \<^verbatim>\<open>millis()\<close> returns it as an \<^verbatim>\<open>unsigned long\<close> (32 bits, so it
  wraps), \<^verbatim>\<open>delay(1)\<close> advances it by one and nothing else takes time. \<open>pin u\<close> is
  the level of the PPS input at time \<open>u\<close>, as \<^verbatim>\<open>digitalRead\<close> sees it. The loop
  returns the time at which it stops with the state.
\<close>

definition millis :: "nat \<Rightarrow> u32" where
  "millis t = of_nat t"

function probe_loop :: "(nat \<Rightarrow> bool) \<Rightarrow> u32 \<Rightarrow> nat \<Rightarrow> sys \<Rightarrow> nat \<times> sys" where
  "probe_loop pin startTime t s =
     (if millis t - startTime < 1500 then
        if pin t then (t, s\<lparr>PPSavailable := True\<rparr>)
        else probe_loop pin startTime (t + 1) s
      else (t, s))"
  by pat_completeness auto
termination
proof (relation "measure (\<lambda>(pin, startTime, t, s). 1500 - unat (millis t - startTime))")
  show "wf (measure (\<lambda>(pin, startTime, t, s). 1500 - unat (millis t - startTime)))"
    by simp
next
  fix pin :: "nat \<Rightarrow> bool" and startTime :: u32 and t :: nat and s :: sys
  assume lt: "millis t - startTime < 1500"
  have n: "unat (millis t - startTime) < 1500"
    using lt by (simp add: word_less_nat_alt)
  have "millis (t + 1) - startTime = (millis t - startTime) + 1"
    by (simp add: millis_def)
  then have "unat (millis (t + 1) - startTime) = unat ((millis t - startTime) + 1)"
    by (rule arg_cong)
  also have "\<dots> = unat (millis t - startTime) + 1"
    using n by (simp add: unat_word_ariths)
  finally have "1500 - unat (millis (t + 1) - startTime) < 1500 - unat (millis t - startTime)"
    using n by linarith
  then show "((pin, startTime, t + 1, s), (pin, startTime, t, s))
      \<in> measure (\<lambda>(pin, startTime, t, s). 1500 - unat (millis t - startTime))"
    by simp
qed

definition initPPS :: "(nat \<Rightarrow> bool) \<Rightarrow> nat \<Rightarrow> sys \<Rightarrow> nat \<times> sys" where
  "initPPS pin t s =
     (let startTime = millis t;
          s = s\<lparr>PPSavailable := False\<rparr>;
          (t, s) = probe_loop pin startTime t s
      in if PPSavailable s then (t, s\<lparr>isr_attached := True\<rparr>) else (t, s))"

subsection \<open>The clock update\<close>

text \<open>
  What \<^verbatim>\<open>TinyGPSPlus\<close> holds after the bytes pending on the serial port have been fed
  to it (lines 277-279): the two validity flags and the calendar fields, which the
  library returns as unsigned numbers.
\<close>

record gps_fix =
  time_valid :: bool
  date_valid :: bool
  year :: nat
  month :: nat
  day :: nat
  hour :: nat
  minute :: nat
  second :: nat

record tm =
  tm_sec :: int
  tm_min :: int
  tm_hour :: int
  tm_mday :: int
  tm_mon :: int
  tm_year :: int
  tm_wday :: int
  tm_yday :: int
  tm_isdst :: int

text \<open>
  Modelled from the spec: \<^verbatim>\<open>mktime\<close> belongs to the C library (newlib on the ESP32),
  not to the repository. The spec describes the conversion as standard Gregorian
  calendar arithmetic, UTC, no timezone offset: the sketch never sets \<^verbatim>\<open>TZ\<close>, so
  local time is UTC, and \<^verbatim>\<open>tm_isdst\<close> is 0. The model counts days the way the library
  does: the days before the month from a table, a leap day after February, and the
  lengths of the years since 1970 added up in a loop. Years are counted from 1900 and
  months from 0. Fields out of range are carried into the next unit, as the library's
  normalisation does; the result is \<open>-1\<close> beyond ten thousand years.
\<close>

definition ISLEAP :: "int \<Rightarrow> bool" where
  "ISLEAP y = (y mod 4 = 0 \<and> (y mod 100 \<noteq> 0 \<or> (y + 1900) mod 400 = 0))"

definition DAYS_IN_YEAR :: "int \<Rightarrow> int" where
  "DAYS_IN_YEAR y = (if ISLEAP y then 366 else 365)"

definition DAYS_BEFORE_MONTH :: "int list" where
  "DAYS_BEFORE_MONTH = [0, 31, 59, 90, 120, 151, 181, 212, 243, 273, 304, 334]"

definition mktime :: "tm \<Rightarrow> int" where
  "mktime t =
     (let yr = tm_year t + tm_mon t div 12;
          mon = tm_mon t mod 12;
          tim = tm_sec t + tm_min t * 60 + tm_hour t * 3600;
          days = tm_mday t - 1 + DAYS_BEFORE_MONTH ! nat mon
                 + (if 1 < mon \<and> DAYS_IN_YEAR yr = 366 then 1 else 0);
          days = days + (if 70 < yr then sum_list (map DAYS_IN_YEAR [70..yr - 1])
                         else if yr < 70 then - sum_list (map DAYS_IN_YEAR [yr..69])
                         else 0)
      in if 10000 < yr \<or> yr < - 10000 then - 1 else tim + days * 86400)"

definition CORRECTION_FACTOR :: int where
  "CORRECTION_FACTOR = 0"

text \<open>
  What the update does to the shared variables, in the order it does it: each read and
  write of the latch \<^verbatim>\<open>PPSsignal\<close> and each \<^verbatim>\<open>settimeofday\<close>.
\<close>

datatype event = LatchRead bool | LatchWrite bool | ClockWrite timeval

datatype update_outcome = Updated | Skipped

text \<open>
  The interrupt handler runs asynchronously: nothing in \<^verbatim>\<open>readGPSTime\<close> masks it. Its
  only effect is to set the latch, so what matters is whether a rising edge arrives
  between two accesses of the latch by the update, not how many or when exactly. The
  PPS line is therefore a schedule \<open>irq\<close> with one entry for each such interval, in the
  order of the accesses: \<open>irq k\<close> for the interval that ends with the \<open>k\<close>-th test of the
  loop of line 291 (the first test is test 0); and, when test \<open>n\<close> ends the loop,
  \<open>irq (n + 1)\<close> for the interval between that test and the clearing write of line
  292, and \<open>irq (n + 2)\<close> for the interval between the clearing write and the return.
  The handler runs on an edge when it is attached. It writes the latch and
  \<^verbatim>\<open>settimeofday\<close> writes the clock, so an edge just before the clock write of line
  297 and one just after it lead to the same state.
\<close>

definition pps_edge :: "(nat \<Rightarrow> bool) \<Rightarrow> nat \<Rightarrow> sys \<Rightarrow> sys" where
  "pps_edge irq k s = (if irq k \<and> isr_attached s then PPS_ISR s else s)"

text \<open>
  Line 291: \<^verbatim>\<open>while (!PPSsignal) {}\<close>. \<^verbatim>\<open>PPSsignal\<close> is volatile, so every test reads
  it anew. The loop has no bound; when no edge ever comes the result is \<open>None\<close>.
  Otherwise the loop returns the index of the test that found the latch set.
\<close>

partial_function (option) wait_PPS ::
  "(nat \<Rightarrow> bool) \<Rightarrow> nat \<Rightarrow> sys \<Rightarrow> event list \<Rightarrow> (nat \<times> sys \<times> event list) option" where
  "wait_PPS irq k s evs =
     (let s1 = pps_edge irq k s in
      if \<not> PPSsignal s1 then wait_PPS irq (Suc k) s1 (evs @ [LatchRead False])
      else Some (k, s1, evs @ [LatchRead True]))"

text \<open>
  \<^verbatim>\<open>readGPSTime\<close> (lines 276-300), on the fix \<open>fx\<close> the parser holds. The function
  returns nothing in C; the outcome names the branch taken. On the two paths that do
  not touch the latch (invalid fix, PPS unavailable) an edge during the call is the same
  as a step of the handler before or after it (\<open>isr_step\<close> below).
\<close>

definition readGPSTime ::
  "gps_fix \<Rightarrow> (nat \<Rightarrow> bool) \<Rightarrow> sys \<Rightarrow> (update_outcome \<times> sys \<times> event list) option" where
  "readGPSTime fx irq s =
     (if time_valid fx \<and> date_valid fx then
        let timeinfo = \<lparr>tm_sec = 0, tm_min = 0, tm_hour = 0, tm_mday = 0, tm_mon = 0,
                        tm_year = 0, tm_wday = 0, tm_yday = 0, tm_isdst = 0\<rparr>;
            timeinfo = timeinfo\<lparr>tm_year := int (year fx) - 1900\<rparr>;
            timeinfo = timeinfo\<lparr>tm_mon := int (month fx) - 1\<rparr>;
            timeinfo = timeinfo\<lparr>tm_mday := int (day fx)\<rparr>;
            timeinfo = timeinfo\<lparr>tm_hour := int (hour fx)\<rparr>;
            timeinfo = timeinfo\<lparr>tm_min := int (minute fx)\<rparr>;
            timeinfo = timeinfo\<lparr>tm_sec := int (second fx)\<rparr>;
            unixTime = mktime timeinfo + 1
        in case (if PPSavailable s then
                   (case wait_PPS irq 0 s [] of
                      None \<Rightarrow> None
                    | Some (n, s1, evs) \<Rightarrow>
                        let s1 = pps_edge irq (n + 1) s1;
                            s1 = s1\<lparr>PPSsignal := False\<rparr>;
                            s1 = pps_edge irq (n + 2) s1
                        in Some (s1, evs @ [LatchWrite False]))
                 else Some (s, [])) of
             None \<Rightarrow> None
           | Some (s2, evs) \<Rightarrow>
               let tv = \<lparr>tv_sec = unixTime, tv_usec = CORRECTION_FACTOR\<rparr>
               in Some (Updated, settimeofday tv s2, evs @ [ClockWrite tv])
      else Some (Skipped, s, []))"

subsection \<open>The running system\<close>

text \<open>
  After \<^verbatim>\<open>setup\<close> three things run for ever: the interrupt handler, when it is
  attached, the task that calls \<^verbatim>\<open>readGPSTime\<close> and the task that calls
  \<^verbatim>\<open>handleNTPRequest\<close>. One step of the system is one of them running once.
\<close>

inductive sys_step :: "sys \<times> net \<Rightarrow> sys \<times> net \<Rightarrow> bool" where
  isr_step: "isr_attached s \<Longrightarrow> sys_step (s, w) (PPS_ISR s, w)"
| gps_step: "readGPSTime fx irq s = Some (out, s', evs) \<Longrightarrow> sys_step (s, w) (s', w)"
| ntp_step: "handleNTPRequest wall junk pkt w = (out, w') \<Longrightarrow> sys_step (s, w) (s, w')"

section \<open>Reading the wire format\<close>

text \<open>
  The notions the properties below are stated with: the big-endian bytes of a 32-bit
  word, the number a byte string denotes when read big-endian, a field of a packet by
  offset and length, the three parts of the first byte of an NTP header, and the
  eight bytes of the NTP timestamp for a clock reading.
\<close>

definition be32 :: "u32 \<Rightarrow> u8 list" where
  "be32 x = [ucast (drop_bit 24 x AND 0xFF), ucast (drop_bit 16 x AND 0xFF),
             ucast (drop_bit 8 x AND 0xFF), ucast (x AND 0xFF)]"

definition be_value :: "u8 list \<Rightarrow> nat" where
  "be_value bs = foldl (\<lambda>acc b. acc * 256 + unat b) 0 bs"

definition field :: "nat \<Rightarrow> nat \<Rightarrow> u8 list \<Rightarrow> u8 list" where
  "field off n xs = take n (drop off xs)"

definition ntp_li :: "u8 list \<Rightarrow> u8" where "ntp_li xs = drop_bit 6 (xs ! 0)"
definition ntp_vn :: "u8 list \<Rightarrow> u8" where "ntp_vn xs = drop_bit 3 (xs ! 0) AND 7"
definition ntp_mode :: "u8 list \<Rightarrow> u8" where "ntp_mode xs = xs ! 0 AND 7"

definition ntp_timestamp :: "timeval \<Rightarrow> u8 list" where
  "ntp_timestamp tv = be32 (ntp_seconds tv) @ be32 (ntp_fraction tv)"

text \<open>The datagram that answers \<open>p\<close>: to the sender's address and port.\<close>

definition reply_to :: "udp_packet \<Rightarrow> u8 list \<Rightarrow> udp_packet" where
  "reply_to p bytes = \<lparr>remoteIP = remoteIP p, remotePort = remotePort p, payload = bytes\<rparr>"

section \<open>Example inputs\<close>

text \<open>
  A request with poll byte 6 and transmit timestamp \<^verbatim>\<open>AA BB CC DD EE FF 00 11\<close>, a
  longer one that agrees with it on exactly those bytes, a datagram of 47 bytes, a
  wall clock on 2024-01-01 and some stack content.
\<close>

definition example_request :: udp_packet where
  "example_request = \<lparr>remoteIP = 0xC0A80117, remotePort = 123,
     payload = [0x23, 0, 6, 0xEC] @ replicate 36 0 @ [0xAA, 0xBB, 0xCC, 0xDD, 0xEE, 0xFF, 0x00, 0x11]\<rparr>"

definition example_request2 :: udp_packet where
  "example_request2 = \<lparr>remoteIP = 0x0A000002, remotePort = 40123,
     payload = [0xE3, 3, 6, 0] @ replicate 36 0x5A @ [0xAA, 0xBB, 0xCC, 0xDD, 0xEE, 0xFF, 0x00, 0x11]
               @ replicate 20 0x77\<rparr>"

definition example_short :: udp_packet where
  "example_short = \<lparr>remoteIP = 0xC0A80117, remotePort = 123, payload = replicate 47 0x1B\<rparr>"

definition example_wall :: "nat \<Rightarrow> timeval" where
  "example_wall n = \<lparr>tv_sec = 1704067200, tv_usec = 250000 + 15625 * int n\<rparr>"

definition example_net :: net where
  "example_net = \<lparr>tod_calls = 0, sent = []\<rparr>"

definition example_junk :: "nat \<Rightarrow> u8" where
  "example_junk i = 0xA5"

section \<open>Calendar arithmetic\<close>

text \<open>
  The standard conversion of a date of the Gregorian calendar to the number of days
  since 1970-01-01, in closed form: the year is counted from March, so that the leap day
  comes last, \<open>leaps\<close> counts the leap years, and \<open>(153 * m' + 2) div 5\<close> is the number
  of days before the month. \<open>unix_epoch_seconds\<close> is the Unix time of a fix read as UTC.
\<close>

definition leaps :: "int \<Rightarrow> int" where
  "leaps Y = Y div 4 - Y div 100 + Y div 400"

definition days_from_civil :: "int \<Rightarrow> int \<Rightarrow> int \<Rightarrow> int" where
  "days_from_civil y m d =
     (let y' = (if m \<le> 2 then y - 1 else y);
          m' = (if m \<le> 2 then m + 9 else m - 3)
      in 365 * y' + leaps y' + (153 * m' + 2) div 5 + d - 1 - 719468)"

definition unix_epoch_seconds :: "gps_fix \<Rightarrow> int" where
  "unix_epoch_seconds fx =
     days_from_civil (int (year fx)) (int (month fx)) (int (day fx)) * 86400
       + int (hour fx) * 3600 + int (minute fx) * 60 + int (second fx)"

text \<open>The \<^verbatim>\<open>struct tm\<close> that lines 281-287 fill in, and the time they pass on.\<close>

definition fix_tm :: "gps_fix \<Rightarrow> tm" where
  "fix_tm fx = \<lparr>tm_sec = int (second fx), tm_min = int (minute fx), tm_hour = int (hour fx),
               tm_mday = int (day fx), tm_mon = int (month fx) - 1,
               tm_year = int (year fx) - 1900, tm_wday = 0, tm_yday = 0, tm_isdst = 0\<rparr>"

definition fix_timeval :: "gps_fix \<Rightarrow> timeval" where
  "fix_timeval fx = \<lparr>tv_sec = mktime (fix_tm fx) + 1, tv_usec = CORRECTION_FACTOR\<rparr>"

text \<open>
  Example inputs of the clock update: the fix 2024-01-01 00:00:00, a fix whose date is
  not valid, a state with PPS available and no edge pending, a state with an edge
  pending, and a PPS line whose edge comes before the fourth test of the latch.
\<close>

definition example_fix :: gps_fix where
  "example_fix = \<lparr>time_valid = True, date_valid = True, year = 2024, month = 1, day = 1,
                   hour = 0, minute = 0, second = 0\<rparr>"

definition example_invalid_fix :: gps_fix where
  "example_invalid_fix = \<lparr>time_valid = True, date_valid = False, year = 2000, month = 0, day = 0,
                   hour = 12, minute = 30, second = 15\<rparr>"

definition example_sys :: sys where
  "example_sys = \<lparr>PPSsignal = False, PPSavailable = True, isr_attached = True,
                   clock = \<lparr>tv_sec = 86400, tv_usec = 0\<rparr>\<rparr>"

definition example_pending :: sys where
  "example_pending = \<lparr>PPSsignal = True, PPSavailable = True, isr_attached = True,
                   clock = \<lparr>tv_sec = 86400, tv_usec = 0\<rparr>\<rparr>"

definition example_irq :: "nat \<Rightarrow> bool" where
  "example_irq k = (k = 3)"

text \<open>
  The same line with a second edge between the clearing write and the return: test 3
  ends the loop, so that interval is the one numbered 5.
\<close>

definition example_irq_late :: "nat \<Rightarrow> bool" where
  "example_irq_late k = (k = 3 \<or> k = 5)"

text \<open>A PPS line that is high from 1005 ms to 1105 ms after boot.\<close>

definition example_pin :: "nat \<Rightarrow> bool" where
  "example_pin u = (1005 \<le> u \<and> u < 1105)"

section \<open>The timestamp as a number\<close>

text \<open>
  An NTP timestamp is a 64-bit fixed-point number: seconds since 1900 in the high 32
  bits, the fraction of a second in units of \<open>2^-32\<close> in the low 32 bits.
  \<open>spec_fraction\<close> is the fraction in the spec's words,
  \<^verbatim>\<open>round(microseconds * 2^32 / 1_000_000)\<close>. \<open>ntp_fixed_point\<close> is the number with
  the fraction rounded down instead.
\<close>

definition spec_fraction :: "int \<Rightarrow> int" where
  "spec_fraction usec = round (of_int usec * 4294967296 / 1000000 :: rat)"

definition ntp_fixed_point :: "timeval \<Rightarrow> nat" where
  "ntp_fixed_point tv =
     nat ((tv_sec tv + 2208988800) mod 4294967296) * 4294967296
       + nat ((tv_usec tv * 4294967296) div 1000000)"

text \<open>A wall clock that stands one microsecond after 2024-01-01 00:00:00.\<close>

definition example_wall_1us :: "nat \<Rightarrow> timeval" where
  "example_wall_1us n = \<lparr>tv_sec = 1704067200, tv_usec = 1\<rparr>"

section \<open>The NTP responder: properties\<close>

subsection \<open>Bytes of a word\<close>

lemma mask8: "(0xFF :: u32) = mask 8" by (simp add: mask_eq_exp_minus_1)

lemma unat_byte: "unat (ucast (drop_bit k (x::u32) AND 0xFF) :: u8) = (unat x div 2 ^ k) mod 256"
proof -
  have "drop_bit k x AND 0xFF = take_bit 8 (drop_bit k x)"
    unfolding mask8 by (simp add: take_bit_eq_mask)
  then have "unat (ucast (drop_bit k x AND 0xFF) :: u8) = unat (ucast (take_bit 8 (drop_bit k x)) :: u8)"
    by simp
  also have "\<dots> = take_bit 8 (unat (take_bit 8 (drop_bit k x)))"
    by (simp only: unsigned_ucast_eq) simp
  also have "\<dots> = take_bit 8 (drop_bit k (unat x))"
    by (simp add: unsigned_take_bit_eq unat_drop_bit_eq)
  also have "\<dots> = (unat x div 2 ^ k) mod 256"
    by (simp add: take_bit_eq_mod drop_bit_eq_div)
  finally show ?thesis .
qed

lemma unat_byte0: "unat (ucast ((x::u32) AND 0xFF) :: u8) = unat x mod 256"
  using unat_byte[of 0 x] by simp

lemma be_digits:
  fixes n :: nat
  assumes "n < 4294967296"
  shows "16777216 * (n div 16777216 mod 256) + 65536 * (n div 65536 mod 256)
         + 256 * (n div 256 mod 256) + n mod 256 = n"
proof -
  have a: "n mod 65536 = 256 * (n div 256 mod 256) + n mod 256"
    using mod_mult2_eq[of n 256 256] by simp
  have b: "n mod 16777216 = 65536 * (n div 65536 mod 256) + n mod 65536"
    using mod_mult2_eq[of n 65536 256] by simp
  have c: "n mod 4294967296 = 16777216 * (n div 16777216 mod 256) + n mod 16777216"
    using mod_mult2_eq[of n 16777216 256] by simp
  have "n mod 4294967296 = n" using assms by simp
  with a b c show ?thesis by linarith
qed

lemma be_value_be32: "be_value (be32 x) = unat x"
proof -
  have "unat x < 2 ^ 32" using unsigned_less[of x] by simp
  then have lt: "unat x < 4294967296" by simp
  have b3: "unat (ucast (drop_bit 24 x AND 0xFF) :: u8) = unat x div 16777216 mod 256"
    by (subst unat_byte) simp
  have b2: "unat (ucast (drop_bit 16 x AND 0xFF) :: u8) = unat x div 65536 mod 256"
    by (subst unat_byte) simp
  have b1: "unat (ucast (drop_bit 8 x AND 0xFF) :: u8) = unat x div 256 mod 256"
    by (subst unat_byte) simp
  have b0: "unat (ucast (x AND 0xFF) :: u8) = unat x mod 256"
    by (rule unat_byte0)
  show ?thesis
    unfolding be_value_def be32_def foldl.simps b3 b2 b1 b0
    using be_digits[OF lt] lt by simp
qed

lemma length_be32: "length (be32 x) = 4" by (simp add: be32_def)
lemma length_ntp_timestamp: "length (ntp_timestamp tv) = 8" by (simp add: ntp_timestamp_def length_be32)

subsection \<open>The reply, byte by byte\<close>

lemma upt48: "[0..<48] = [0..<8] @ [8..<16] @ [16..<24] @ [24..<32] @ [32..<40] @ [40..<48]"
  by code_simp

lemma upt0_8: "[0..<8] = [0, 1, 2, 3, 4, 5, 6, 7]"
  by code_simp

lemma slice_nth: "k + n \<le> length xs \<Longrightarrow> take n (drop k xs) = map (\<lambda>i. xs ! (k + i)) [0..<n]"
  by (simp add: list_eq_iff_nth_eq)

lemma handleNTPRequest_reply:
  assumes "48 \<le> length (payload p)"
  shows "handleNTPRequest wall junk (Some p) w =
    (Replied, w\<lparr>tod_calls := tod_calls w + 2,
       sent := sent w @ [reply_to p
          ([0x24, 1, payload p ! 2, 0xFA, 0, 0, 0, 0, 0, 0, 0, 0, 0x4C, 0x4F, 0x43, 0x4C]
           @ ntp_timestamp (wall (tod_calls w))
           @ field 40 8 (payload p)
           @ ntp_timestamp (wall (tod_calls w))
           @ ntp_timestamp (wall (tod_calls w + 1)))]\<rparr>)"
  using assms by (simp add: Let_def upt48 upt0_8 upt_rec_numeral be32_def reply_to_def ntp_timestamp_def field_def slice_nth)

lemma handleNTPRequest_short:
  "length (payload p) < 48 \<Longrightarrow> handleNTPRequest wall junk (Some p) w = (Ignored, w)"
  by simp

declare handleNTPRequest.simps(2) [simp del]

text \<open>
  C3: every request of at least 48 bytes is answered with a 48-byte packet that has
  leap indicator 0, version 4, mode 4, stratum 1, the poll byte of the request (offset
  2), the fixed precision byte \<open>-6\<close>, root delay and root dispersion zero, the reference
  identifier \<^verbatim>\<open>LOCL\<close>, a reference timestamp equal to the receive timestamp, the
  receive timestamp encoded from the first reading of the wall clock and the transmit
  timestamp encoded from a second, later reading: two calls of \<^verbatim>\<open>gettimeofday\<close> are
  made.
\<close>

theorem C3_response_fields:
  assumes "48 \<le> length (payload p)"
  shows "\<exists>resp. handleNTPRequest wall junk (Some p) w =
           (Replied, w\<lparr>tod_calls := tod_calls w + 2, sent := sent w @ [reply_to p resp]\<rparr>)
     \<and> length resp = 48
     \<and> ntp_li resp = 0 \<and> ntp_vn resp = 4 \<and> ntp_mode resp = 4
     \<and> resp ! 1 = 1
     \<and> resp ! 2 = payload p ! 2
     \<and> sint (resp ! 3) = - 6
     \<and> field 4 4 resp = [0, 0, 0, 0]
     \<and> field 8 4 resp = [0, 0, 0, 0]
     \<and> field 12 4 resp = map of_char ''LOCL''
     \<and> field 16 8 resp = field 32 8 resp
     \<and> field 32 8 resp = ntp_timestamp (wall (tod_calls w))
     \<and> field 40 8 resp = ntp_timestamp (wall (tod_calls w + 1))"
proof -
  define rx where "rx = ntp_timestamp (wall (tod_calls w))"
  define tx where "tx = ntp_timestamp (wall (tod_calls w + 1))"
  define org where "org = field 40 8 (payload p)"
  define resp where "resp = [0x24, 1, payload p ! 2, 0xFA, 0, 0, 0, 0, 0, 0, 0, 0, 0x4C, 0x4F, 0x43, 0x4C]
           @ rx @ org @ rx @ tx"
  have len: "length org = 8" "length rx = 8" "length tx = 8"
    using assms by (simp_all add: org_def rx_def tx_def field_def length_ntp_timestamp)
  have "handleNTPRequest wall junk (Some p) w =
           (Replied, w\<lparr>tod_calls := tod_calls w + 2, sent := sent w @ [reply_to p resp]\<rparr>)"
    unfolding resp_def rx_def tx_def org_def by (rule handleNTPRequest_reply[OF assms])
  moreover have "length resp = 48" by (simp add: resp_def len)
  moreover have "ntp_li resp = 0" "ntp_vn resp = 4" "ntp_mode resp = 4"
    by (simp_all add: resp_def ntp_li_def ntp_vn_def ntp_mode_def)
  moreover have "resp ! 1 = 1" "resp ! 2 = payload p ! 2" "sint (resp ! 3) = - 6"
    by (simp_all add: resp_def)
  moreover have "field 4 4 resp = [0, 0, 0, 0]" "field 8 4 resp = [0, 0, 0, 0]"
     "field 12 4 resp = map of_char ''LOCL''"
    by (simp_all add: resp_def field_def)
  moreover have "field 16 8 resp = rx" "field 32 8 resp = rx" "field 40 8 resp = tx"
    by (simp_all add: resp_def field_def len)
  ultimately show ?thesis unfolding rx_def tx_def by (intro exI[of _ resp]) simp
qed

theorem C3_witness:
  "48 \<le> length (payload example_request) \<and>
   (\<exists>resp. handleNTPRequest example_wall example_junk (Some example_request) example_net =
           (Replied, \<lparr>tod_calls = 2, sent = [reply_to example_request resp]\<rparr>)
     \<and> length resp = 48 \<and> ntp_mode resp = 4 \<and> resp ! 1 = 1 \<and> resp ! 2 = 6
     \<and> field 12 4 resp = [0x4C, 0x4F, 0x43, 0x4C]
     \<and> field 16 8 resp = field 32 8 resp
     \<and> field 32 8 resp = ntp_timestamp (example_wall 0)
     \<and> field 40 8 resp = ntp_timestamp (example_wall 1))"
proof -
  have h: "48 \<le> length (payload example_request)"
    by (simp add: example_request_def)
  have p2: "payload example_request ! 2 = 6"
    by (simp add: example_request_def)
  from C3_response_fields[OF h, of example_wall example_junk example_net]
  show ?thesis using h p2 by (auto simp: example_net_def)
qed

text \<open>
  C4: for every request of at least 48 bytes, bytes 24 to 31 of the reply (the origin
  timestamp) are bytes 40 to 47 of the request, byte for byte.
\<close>

theorem C4_origin_timestamp:
  assumes "48 \<le> length (payload p)"
  shows "\<exists>resp. handleNTPRequest wall junk (Some p) w =
           (Replied, w\<lparr>tod_calls := tod_calls w + 2, sent := sent w @ [reply_to p resp]\<rparr>)
     \<and> field 24 8 resp = field 40 8 (payload p)
     \<and> (\<forall>i<8. resp ! (24 + i) = payload p ! (40 + i))"
proof -
  define rx where "rx = ntp_timestamp (wall (tod_calls w))"
  define tx where "tx = ntp_timestamp (wall (tod_calls w + 1))"
  define org where "org = field 40 8 (payload p)"
  define resp where "resp = [0x24, 1, payload p ! 2, 0xFA, 0, 0, 0, 0, 0, 0, 0, 0, 0x4C, 0x4F, 0x43, 0x4C]
           @ rx @ org @ rx @ tx"
  have len: "length org = 8" "length rx = 8" "length tx = 8"
    using assms by (simp_all add: org_def rx_def tx_def field_def length_ntp_timestamp)
  have run: "handleNTPRequest wall junk (Some p) w =
           (Replied, w\<lparr>tod_calls := tod_calls w + 2, sent := sent w @ [reply_to p resp]\<rparr>)"
    unfolding resp_def rx_def tx_def org_def by (rule handleNTPRequest_reply[OF assms])
  have slice: "field 24 8 resp = org"
    by (simp add: resp_def field_def len)
  have bytes: "resp ! (24 + i) = payload p ! (40 + i)" if "i < 8" for i
  proof -
    have "resp ! (24 + i) = org ! i"
      using that len by (simp add: resp_def nth_append)
    also have "\<dots> = payload p ! (40 + i)"
      using that assms by (simp add: org_def field_def)
    finally show ?thesis .
  qed
  from run slice bytes show ?thesis unfolding org_def by blast
qed

theorem C4_witness:
  "48 \<le> length (payload example_request) \<and>
   (\<exists>resp. handleNTPRequest example_wall example_junk (Some example_request) example_net =
           (Replied, \<lparr>tod_calls = 2, sent = [reply_to example_request resp]\<rparr>)
     \<and> field 24 8 resp = [0xAA, 0xBB, 0xCC, 0xDD, 0xEE, 0xFF, 0x00, 0x11])"
proof -
  have h: "48 \<le> length (payload example_request)"
    by (simp add: example_request_def)
  have o: "field 40 8 (payload example_request) = [0xAA, 0xBB, 0xCC, 0xDD, 0xEE, 0xFF, 0x00, 0x11]"
    by (simp add: example_request_def field_def)
  from C4_origin_timestamp[OF h, of example_wall example_junk example_net]
  show ?thesis using h o by (auto simp: example_net_def)
qed

text \<open>
  C5: a datagram shorter than 48 bytes is ignored: nothing is sent, the clock is not
  read, and the outcome is \<open>Ignored\<close>.
\<close>

theorem C5_short_datagram_ignored:
  assumes "length (payload p) < 48"
  shows "handleNTPRequest wall junk (Some p) w = (Ignored, w)"
  using assms by (rule handleNTPRequest_short)

theorem C5_witness:
  "length (payload example_short) < 48 \<and>
   handleNTPRequest example_wall example_junk (Some example_short) example_net
     = (Ignored, \<lparr>tod_calls = 0, sent = []\<rparr>)"
proof -
  have h: "length (payload example_short) < 48"
    by (simp add: example_short_def)
  from C5_short_datagram_ignored[OF h, of example_wall example_junk example_net]
  show ?thesis using h by (simp add: example_net_def)
qed

text \<open>
  C9: two requests of at least 48 bytes that agree on the byte at offset 2 and on
  bytes 40 to 47 get the same 48 bytes in reply when the two readings of the wall clock
  are the same: no other byte of the request, nothing beyond offset 47, nothing of the
  sender's address and nothing of what the response buffer held before has any
  influence, and the reply has 48 bytes whatever the length of the request.
\<close>

theorem C9_reply_determined_by_poll_and_transmit:
  assumes "48 \<le> length (payload p)" and "48 \<le> length (payload q)"
    and "payload p ! 2 = payload q ! 2"
    and "field 40 8 (payload p) = field 40 8 (payload q)"
    and "wall (tod_calls w) = wall' (tod_calls w')"
    and "wall (tod_calls w + 1) = wall' (tod_calls w' + 1)"
  shows "\<exists>resp. length resp = 48
     \<and> handleNTPRequest wall junk (Some p) w =
           (Replied, w\<lparr>tod_calls := tod_calls w + 2, sent := sent w @ [reply_to p resp]\<rparr>)
     \<and> handleNTPRequest wall' junk' (Some q) w' =
           (Replied, w'\<lparr>tod_calls := tod_calls w' + 2, sent := sent w' @ [reply_to q resp]\<rparr>)"
proof -
  define resp where "resp = [0x24, 1, payload p ! 2, 0xFA, 0, 0, 0, 0, 0, 0, 0, 0, 0x4C, 0x4F, 0x43, 0x4C]
           @ ntp_timestamp (wall (tod_calls w)) @ field 40 8 (payload p)
           @ ntp_timestamp (wall (tod_calls w)) @ ntp_timestamp (wall (tod_calls w + 1))"
  have "length (field 40 8 (payload p)) = 8"
    using assms(1) by (simp add: field_def)
  then have "length resp = 48"
    by (simp add: resp_def length_ntp_timestamp)
  moreover have "handleNTPRequest wall junk (Some p) w =
           (Replied, w\<lparr>tod_calls := tod_calls w + 2, sent := sent w @ [reply_to p resp]\<rparr>)"
    unfolding resp_def by (rule handleNTPRequest_reply[OF assms(1)])
  moreover have "handleNTPRequest wall' junk' (Some q) w' =
           (Replied, w'\<lparr>tod_calls := tod_calls w' + 2, sent := sent w' @ [reply_to q resp]\<rparr>)"
    unfolding resp_def assms(3-6) by (rule handleNTPRequest_reply[OF assms(2)])
  ultimately show ?thesis by blast
qed

theorem C9_witness:
  "48 \<le> length (payload example_request) \<and> 48 \<le> length (payload example_request2)
   \<and> payload example_request \<noteq> payload example_request2
   \<and> (\<exists>resp. length resp = 48
      \<and> handleNTPRequest example_wall example_junk (Some example_request) example_net =
           (Replied, \<lparr>tod_calls = 2, sent = [reply_to example_request resp]\<rparr>)
      \<and> handleNTPRequest (\<lambda>n. example_wall (n - 5)) (\<lambda>i. 0) (Some example_request2)
             \<lparr>tod_calls = 5, sent = []\<rparr> =
           (Replied, \<lparr>tod_calls = 7, sent = [reply_to example_request2 resp]\<rparr>))"
proof -
  have h1: "48 \<le> length (payload example_request)"
    and h2: "48 \<le> length (payload example_request2)"
    and h3: "payload example_request ! 2 = payload example_request2 ! 2"
    and h4: "field 40 8 (payload example_request) = field 40 8 (payload example_request2)"
    and ne: "payload example_request \<noteq> payload example_request2"
    by (simp_all add: example_request_def example_request2_def field_def)
  have h5: "example_wall (tod_calls example_net) = (\<lambda>n. example_wall (n - 5)) (tod_calls \<lparr>tod_calls = 5, sent = []\<rparr>)"
    and h6: "example_wall (tod_calls example_net + 1) = (\<lambda>n. example_wall (n - 5)) (tod_calls \<lparr>tod_calls = 5, sent = []\<rparr> + 1)"
    by (simp_all add: example_net_def)
  from C9_reply_determined_by_poll_and_transmit[OF h1 h2 h3 h4 h5 h6, of example_junk "\<lambda>i. 0"]
  show ?thesis using h1 h2 ne by (auto simp: example_net_def)
qed


section \<open>The clock update: properties\<close>

subsection \<open>The wait for the edge\<close>

lemma pps_edge_cases:
  "pps_edge irq k s = s \<or> pps_edge irq k s = s\<lparr>PPSsignal := True\<rparr>"
  by (simp add: pps_edge_def PPS_ISR_def)

lemma pps_edge_set:
  "PPSsignal (pps_edge irq k s) \<longleftrightarrow> PPSsignal s \<or> (irq k \<and> isr_attached s)"
  by (auto simp: pps_edge_def PPS_ISR_def)

lemma wait_PPS_sound:
  assumes "wait_PPS irq k s evs = Some r"
  shows "fst (snd r) = s\<lparr>PPSsignal := True\<rparr>
     \<and> k \<le> fst r
     \<and> snd (snd r) = evs @ replicate (fst r - k) (LatchRead False) @ [LatchRead True]
     \<and> (PPSsignal s \<or> (isr_attached s \<and> (\<exists>j\<ge>k. irq j)))"
  using assms
proof (induction rule: wait_PPS.raw_induct[rotated 1, consumes 1])
  case (1 wait irq k s evs r)
  note IH = 1(1) and body = 1(2)
  define s1 where "s1 = pps_edge irq k s"
  show ?case
  proof (cases "PPSsignal s1")
    case True
    with body have r: "r = (k, s1, evs @ [LatchRead True])"
      by (simp add: s1_def Let_def)
    have "s1 = s\<lparr>PPSsignal := True\<rparr>"
      using True pps_edge_cases[of irq k s] by (auto simp: s1_def)
    moreover have "PPSsignal s \<or> (isr_attached s \<and> (\<exists>j\<ge>k. irq j))"
      using True by (auto simp: s1_def pps_edge_set)
    ultimately show ?thesis by (simp add: r)
  next
    case False
    then have eq: "s1 = s" by (auto simp: s1_def pps_edge_def PPS_ISR_def split: if_splits)
    from False body have "wait irq (Suc k) s1 (evs @ [LatchRead False]) = Some r"
      by (simp add: s1_def Let_def)
    from IH[OF this] have
      a: "fst (snd r) = s\<lparr>PPSsignal := True\<rparr>"
      and le: "Suc k \<le> fst r"
      and b: "snd (snd r) = (evs @ [LatchRead False]) @ replicate (fst r - Suc k) (LatchRead False) @ [LatchRead True]"
      and c: "PPSsignal s \<or> (isr_attached s \<and> (\<exists>j\<ge>Suc k. irq j))"
      unfolding eq by blast+
    from le have "fst r - k = Suc (fst r - Suc k)" by simp
    with b have "snd (snd r) = evs @ replicate (fst r - k) (LatchRead False) @ [LatchRead True]"
      by simp
    moreover from c have "PPSsignal s \<or> (isr_attached s \<and> (\<exists>j\<ge>k. irq j))"
      using Suc_leD by blast
    moreover from le have "k \<le> fst r" by simp
    ultimately show ?thesis using a by blast
  qed
qed

lemma wait_PPS_returns:
  assumes "PPSsignal s \<or> (isr_attached s \<and> irq (k + d))"
  shows "\<exists>r. wait_PPS irq k s evs = Some r"
  using assms
proof (induction d arbitrary: k s evs)
  case 0
  then have "PPSsignal (pps_edge irq k s)" by (auto simp: pps_edge_set)
  then show ?case
    by (subst wait_PPS.simps) (simp add: Let_def)
next
  case (Suc d)
  define s1 where "s1 = pps_edge irq k s"
  show ?case
  proof (cases "PPSsignal s1")
    case True
    then show ?thesis
      by (subst wait_PPS.simps) (simp add: s1_def Let_def)
  next
    case False
    then have eq: "s1 = s" by (auto simp: s1_def pps_edge_def PPS_ISR_def split: if_splits)
    from Suc.prems False have "PPSsignal s1 \<or> (isr_attached s1 \<and> irq (Suc k + d))"
      unfolding eq by simp
    from Suc.IH[OF this] obtain r where r: "wait_PPS irq (Suc k) s1 (evs @ [LatchRead False]) = Some r"
      by blast
    have "wait_PPS irq k s evs = wait_PPS irq (Suc k) s1 (evs @ [LatchRead False])"
      using False by (subst wait_PPS.simps[of irq k s evs]) (simp add: s1_def Let_def)
    with r have "wait_PPS irq k s evs = Some r" by simp
    then show ?thesis ..
  qed
qed

subsection \<open>The library's day count and the closed form\<close>

lemma div_step:
  fixes Y n :: int
  assumes "0 < n"
  shows "Y div n - (Y - 1) div n = (if Y mod n = 0 then 1 else 0)"
proof (cases "Y mod n = 0")
  case True
  have "Y = n * (Y div n) + Y mod n" by simp
  with True have "Y - 1 = n * (Y div n - 1) + (n - 1)"
    by (simp add: algebra_simps)
  moreover have "0 \<le> n - 1" "n - 1 < n" using assms by simp_all
  ultimately have "(Y - 1) div n = Y div n - 1"
    by (rule int_div_pos_eq)
  then show ?thesis using True by simp
next
  case False
  have "Y = n * (Y div n) + Y mod n" by simp
  then have "Y - 1 = n * (Y div n) + (Y mod n - 1)" by simp
  moreover have "0 \<le> Y mod n - 1" "Y mod n - 1 < n"
  proof -
    have "0 \<le> Y mod n" "Y mod n < n" using assms by simp_all
    with False show "0 \<le> Y mod n - 1" "Y mod n - 1 < n" by linarith+
  qed
  ultimately have "(Y - 1) div n = Y div n"
    by (rule int_div_pos_eq)
  then show ?thesis using False by simp
qed

lemma ISLEAP_civil: "ISLEAP yr \<longleftrightarrow> (yr + 1900) mod 4 = 0 \<and> ((yr + 1900) mod 100 \<noteq> 0 \<or> (yr + 1900) mod 400 = 0)"
proof -
  have "(yr + 1900) mod 4 = yr mod 4"
    using mod_add_right_eq[of yr 1900 4] by simp
  moreover have "(yr + 1900) mod 100 = yr mod 100"
    using mod_add_right_eq[of yr 1900 100] by simp
  ultimately show ?thesis by (simp add: ISLEAP_def)
qed

lemma leaps_step: "leaps (yr + 1900) - leaps (yr + 1899) = (if ISLEAP yr then 1 else 0)"
proof -
  define Y where "Y = yr + 1900"
  define m4 where "m4 \<longleftrightarrow> Y mod 4 = 0"
  define m100 where "m100 \<longleftrightarrow> Y mod 100 = 0"
  define m400 where "m400 \<longleftrightarrow> Y mod 400 = 0"
  define a4 where "a4 = Y div 4"
  define a100 where "a100 = Y div 100"
  define a400 where "a400 = Y div 400"
  define b4 where "b4 = (Y - 1) div 4"
  define b100 where "b100 = (Y - 1) div 100"
  define b400 where "b400 = (Y - 1) div 400"
  have a: "a4 - b4 = (if m4 then 1 else 0)"
    unfolding a4_def b4_def m4_def by (rule div_step) simp
  have b: "a100 - b100 = (if m100 then 1 else 0)"
    unfolding a100_def b100_def m100_def by (rule div_step) simp
  have c: "a400 - b400 = (if m400 then 1 else 0)"
    unfolding a400_def b400_def m400_def by (rule div_step) simp
  have d: "m400 \<Longrightarrow> m100"
    unfolding m400_def m100_def using dvd_trans[of 100 400 Y] by (simp add: mod_eq_0_iff_dvd)
  have e: "m100 \<Longrightarrow> m4"
    unfolding m100_def m4_def using dvd_trans[of 4 100 Y] by (simp add: mod_eq_0_iff_dvd)
  have y1: "Y - 1 = yr + 1899" by (simp add: Y_def)
  have l1: "leaps (yr + 1900) = a4 - a100 + a400"
    unfolding leaps_def a4_def a100_def a400_def Y_def by (rule refl)
  have l0: "leaps (yr + 1899) = b4 - b100 + b400"
    unfolding leaps_def b4_def b100_def b400_def y1 by (rule refl)
  have il: "ISLEAP yr \<longleftrightarrow> m4 \<and> (\<not> m100 \<or> m400)"
    unfolding ISLEAP_civil m4_def m100_def m400_def Y_def by simp
  show ?thesis
    unfolding l1 l0 il using a b c d e by (cases m4; cases m100; cases m400) simp_all
qed

lemma years_sum:
  assumes "70 \<le> yr"
  shows "sum_list (map DAYS_IN_YEAR [70..yr - 1]) = 365 * (yr - 70) + leaps (yr + 1899) - 477"
  using assms
proof (induction yr rule: int_ge_induct)
  case base
  show ?case by (simp add: leaps_def)
next
  case (step i)
  have "[70..i + 1 - 1] = [70..i - 1] @ [i]"
    using step.hyps upto_rec2[of 70 i] by simp
  then have "sum_list (map DAYS_IN_YEAR [70..i + 1 - 1]) = sum_list (map DAYS_IN_YEAR [70..i - 1]) + DAYS_IN_YEAR i"
    by simp
  also have "\<dots> = 365 * (i - 70) + leaps (i + 1899) - 477 + DAYS_IN_YEAR i"
    using step.IH by simp
  also have "\<dots> = 365 * (i + 1 - 70) + leaps (i + 1900) - 477"
    using leaps_step[of i] by (cases "ISLEAP i") (simp_all add: DAYS_IN_YEAR_def)
  finally show ?case by (simp add: add.commute)
qed


lemma years_days:
  assumes "70 \<le> yr"
  shows "(if 70 < yr then sum_list (map DAYS_IN_YEAR [70..yr - 1])
          else if yr < 70 then - sum_list (map DAYS_IN_YEAR [yr..69]) else 0)
         = 365 * (yr - 70) + leaps (yr + 1899) - 477"
proof (cases "70 < yr")
  case True
  then show ?thesis using years_sum[OF assms] by simp
next
  case False
  with assms have "yr = 70" by simp
  then show ?thesis by (simp add: leaps_def)
qed

lemma month_cases:
  fixes m :: int
  assumes "1 \<le> m" "m \<le> 12"
  shows "m = 1 \<or> m = 2 \<or> m = 3 \<or> m = 4 \<or> m = 5 \<or> m = 6 \<or> m = 7 \<or> m = 8 \<or> m = 9
         \<or> m = 10 \<or> m = 11 \<or> m = 12"
  using assms by arith

lemma days_from_civil_leaps:
  "days_from_civil y m d =
     365 * (if m \<le> 2 then y - 1 else y) + leaps (if m \<le> 2 then y - 1 else y)
       + (153 * (if m \<le> 2 then m + 9 else m - 3) + 2) div 5 + d - 1 - 719468"
  by (simp add: days_from_civil_def Let_def)

lemma mktime_civil:
  assumes "1970 \<le> y" "y \<le> 11900" "1 \<le> m" "m \<le> 12"
  shows "mktime \<lparr>tm_sec = sec, tm_min = mi, tm_hour = h, tm_mday = d, tm_mon = m - 1,
                  tm_year = y - 1900, tm_wday = wd, tm_yday = yd, tm_isdst = dst\<rparr>
         = days_from_civil y m d * 86400 + h * 3600 + mi * 60 + sec"
proof -
  define yr where "yr = y - 1900"
  define L where "L = leaps (y - 1)"
  define lp where "lp = (if ISLEAP yr then 1 else 0 :: int)"
  have carry: "(m - 1) div 12 = 0" "(m - 1) mod 12 = m - 1"
    using assms(3,4) by simp_all
  have yr70: "70 \<le> yr" and yrmax: "\<not> 10000 < yr" "\<not> yr < - 10000"
    using assms(1,2) by (simp_all add: yr_def)
  have e1: "yr + 1899 = y - 1" and e2: "yr + 1900 = y"
    by (simp_all add: yr_def)
  have ydays: "(if 70 < yr then sum_list (map DAYS_IN_YEAR [70..yr - 1])
          else if yr < 70 then - sum_list (map DAYS_IN_YEAR [yr..69]) else 0)
         = 365 * (yr - 70) + L - 477"
    unfolding L_def e1[symmetric] by (rule years_days[OF yr70])
  have "leaps y - L = lp"
    using leaps_step[of yr] unfolding e2 e1 L_def lp_def .
  then have Ly: "leaps y = L + lp" by linarith
  have diy: "DAYS_IN_YEAR yr = 366 \<longleftrightarrow> ISLEAP yr"
    by (simp add: DAYS_IN_YEAR_def)
  have lhs: "mktime \<lparr>tm_sec = sec, tm_min = mi, tm_hour = h, tm_mday = d, tm_mon = m - 1,
                  tm_year = y - 1900, tm_wday = wd, tm_yday = yd, tm_isdst = dst\<rparr>
      = sec + mi * 60 + h * 3600
        + (d - 1 + DAYS_BEFORE_MONTH ! nat (m - 1) + (if 1 < m - 1 then lp else 0)
           + (365 * (yr - 70) + L - 477)) * 86400"
    unfolding mktime_def Let_def
    by (simp only: tm.simps carry add_0_right yr_def[symmetric] ydays yrmax if_False HOL.simp_thms diy lp_def)
       (simp add: lp_def)
  have rhs: "days_from_civil y m d
      = 365 * (if m \<le> 2 then y - 1 else y) + (if m \<le> 2 then L else L + lp)
        + (153 * (if m \<le> 2 then m + 9 else m - 3) + 2) div 5 + d - 1 - 719468"
    unfolding days_from_civil_leaps by (cases "m \<le> 2") (simp_all add: Ly L_def)
  show ?thesis
    unfolding lhs rhs using month_cases[OF assms(3,4)]
    by (elim disjE) (simp_all add: DAYS_BEFORE_MONTH_def yr_def)
qed


subsection \<open>The three paths of the update\<close>

lemma readGPSTime_skip:
  "\<not> time_valid fx \<or> \<not> date_valid fx \<Longrightarrow> readGPSTime fx irq s = Some (Skipped, s, [])"
  by (auto simp: readGPSTime_def)

lemma readGPSTime_no_pps:
  assumes "time_valid fx" "date_valid fx" "\<not> PPSavailable s"
  shows "readGPSTime fx irq s =
           Some (Updated, settimeofday (fix_timeval fx) s, [ClockWrite (fix_timeval fx)])"
  using assms by (simp add: readGPSTime_def fix_timeval_def fix_tm_def Let_def)

lemma readGPSTime_pps:
  assumes "time_valid fx" "date_valid fx" "PPSavailable s"
  shows "readGPSTime fx irq s =
           (case wait_PPS irq 0 s [] of
              None \<Rightarrow> None
            | Some (n, s1, evs) \<Rightarrow>
                Some (Updated,
                      settimeofday (fix_timeval fx)
                        (pps_edge irq (n + 2) ((pps_edge irq (n + 1) s1)\<lparr>PPSsignal := False\<rparr>)),
                      evs @ [LatchWrite False, ClockWrite (fix_timeval fx)]))"
  using assms by (simp add: readGPSTime_def fix_timeval_def fix_tm_def Let_def split: option.splits)

text \<open>
  The path of a valid fix with PPS available, when test \<open>n\<close> ends the wait: the latch at
  the return is set exactly when an edge arrives after the clearing write.
\<close>

lemma readGPSTime_pps_run:
  assumes "time_valid fx" "date_valid fx" "PPSavailable s"
    and "wait_PPS irq 0 s [] = Some r"
  shows "readGPSTime fx irq s =
           Some (Updated,
                 s\<lparr>PPSsignal := (isr_attached s \<and> irq (fst r + 2)), clock := fix_timeval fx\<rparr>,
                 replicate (fst r) (LatchRead False)
                   @ [LatchRead True, LatchWrite False, ClockWrite (fix_timeval fx)])"
proof -
  obtain n s1 evs1 where r: "r = (n, s1, evs1)" by (cases r)
  from wait_PPS_sound[OF assms(4)] have s1: "s1 = s\<lparr>PPSsignal := True\<rparr>"
    and evs1: "evs1 = replicate n (LatchRead False) @ [LatchRead True]"
    by (simp_all add: r)
  have clr: "(pps_edge irq (n + 1) s1)\<lparr>PPSsignal := False\<rparr> = s\<lparr>PPSsignal := False\<rparr>"
    using pps_edge_cases[of irq "n + 1" s1] by (auto simp: s1)
  have late: "pps_edge irq (n + 2) (s\<lparr>PPSsignal := False\<rparr>)
      = s\<lparr>PPSsignal := (isr_attached s \<and> irq (n + 2))\<rparr>"
    by (auto simp: pps_edge_def PPS_ISR_def)
  have st: "pps_edge irq (n + 2) ((pps_edge irq (n + 1) s1)\<lparr>PPSsignal := False\<rparr>)
      = s\<lparr>PPSsignal := (isr_attached s \<and> irq (n + 2))\<rparr>"
    by (simp only: clr late)
  have "readGPSTime fx irq s =
      Some (Updated,
            settimeofday (fix_timeval fx)
              (pps_edge irq (n + 2) ((pps_edge irq (n + 1) s1)\<lparr>PPSsignal := False\<rparr>)),
            evs1 @ [LatchWrite False, ClockWrite (fix_timeval fx)])"
    unfolding readGPSTime_pps[OF assms(1-3)] assms(4) r by simp
  then show ?thesis
    unfolding st by (simp add: settimeofday_def evs1 r)
qed

lemma wait_PPS_None_iff:
  "wait_PPS irq k s evs = None \<longleftrightarrow> \<not> PPSsignal s \<and> \<not> (isr_attached s \<and> (\<exists>j\<ge>k. irq j))"
proof
  assume n: "wait_PPS irq k s evs = None"
  show "\<not> PPSsignal s \<and> \<not> (isr_attached s \<and> (\<exists>j\<ge>k. irq j))"
  proof (rule ccontr)
    assume "\<not> (\<not> PPSsignal s \<and> \<not> (isr_attached s \<and> (\<exists>j\<ge>k. irq j)))"
    then consider "PPSsignal s" | j where "isr_attached s" "k \<le> j" "irq j" by blast
    then have "\<exists>d. PPSsignal s \<or> (isr_attached s \<and> irq (k + d))"
    proof cases
      case 1
      then show ?thesis by simp
    next
      case 2
      then have "irq (k + (j - k))" by simp
      with 2 show ?thesis by blast
    qed
    then obtain d where "PPSsignal s \<or> (isr_attached s \<and> irq (k + d))" ..
    then have "\<exists>r. wait_PPS irq k s evs = Some r"
      by (rule wait_PPS_returns[of s irq k d evs])
    with n show False by simp
  qed
next
  assume a: "\<not> PPSsignal s \<and> \<not> (isr_attached s \<and> (\<exists>j\<ge>k. irq j))"
  show "wait_PPS irq k s evs = None"
  proof (cases "wait_PPS irq k s evs")
    case None
    then show ?thesis .
  next
    case (Some r)
    from wait_PPS_sound[OF this] a show ?thesis by blast
  qed
qed

lemma fix_timeval_civil:
  assumes "1970 \<le> year fx" "year fx \<le> 11900" "1 \<le> month fx" "month fx \<le> 12"
  shows "fix_timeval fx = \<lparr>tv_sec = unix_epoch_seconds fx + 1, tv_usec = 0\<rparr>"
proof -
  have "mktime (fix_tm fx) = unix_epoch_seconds fx"
    unfolding fix_tm_def unix_epoch_seconds_def
    using assms by (subst mktime_civil) simp_all
  then show ?thesis by (simp add: fix_timeval_def CORRECTION_FACTOR_def)
qed

text \<open>
  C1: for a fix whose date and time are valid (month 1 to 12, year 1970 to 11900, the
  range of the library's conversion), the update computes the Unix time of the fix,
  read as UTC, plus exactly one second, and sets the seconds of the clock to it (with
  zero microseconds): whenever the update returns the clock holds that value, and the
  update does return when PPS is unavailable or an edge arrives.
\<close>

theorem C1_epoch_seconds_plus_one:
  assumes "time_valid fx" and "date_valid fx"
    and "1970 \<le> year fx" and "year fx \<le> 11900" and "1 \<le> month fx" and "month fx \<le> 12"
  shows "(\<forall>out s' evs. readGPSTime fx irq s = Some (out, s', evs) \<longrightarrow>
            out = Updated \<and> clock s' = \<lparr>tv_sec = unix_epoch_seconds fx + 1, tv_usec = 0\<rparr>)
       \<and> ((PPSavailable s \<longrightarrow> PPSsignal s \<or> (isr_attached s \<and> (\<exists>k. irq k)))
            \<longrightarrow> (\<exists>s' evs. readGPSTime fx irq s = Some (Updated, s', evs)))"
proof (cases "PPSavailable s")
  case False
  then show ?thesis
    using assms(1,2) fix_timeval_civil[OF assms(3-6)]
    by (simp add: readGPSTime_no_pps settimeofday_def)
next
  case True
  show ?thesis
  proof (cases "wait_PPS irq 0 s []")
    case None
    then have "readGPSTime fx irq s = None"
      using assms(1,2) True by (simp add: readGPSTime_pps)
    moreover from None have "\<not> (PPSsignal s \<or> (isr_attached s \<and> (\<exists>k. irq k)))"
      by (simp add: wait_PPS_None_iff)
    ultimately show ?thesis using True by simp
  next
    case (Some r)
    from readGPSTime_pps_run[OF assms(1,2) True Some] show ?thesis
      using fix_timeval_civil[OF assms(3-6)] by simp
  qed
qed

theorem C1_witness:
  "time_valid example_fix \<and> date_valid example_fix
   \<and> 1970 \<le> year example_fix \<and> year example_fix \<le> 11900
   \<and> 1 \<le> month example_fix \<and> month example_fix \<le> 12
   \<and> isr_attached example_sys \<and> example_irq 3
   \<and> (\<exists>s' evs. readGPSTime example_fix example_irq example_sys = Some (Updated, s', evs)
         \<and> clock s' = \<lparr>tv_sec = 1704067201, tv_usec = 0\<rparr>)"
proof -
  have h: "time_valid example_fix" "date_valid example_fix"
    "1970 \<le> year example_fix" "year example_fix \<le> 11900"
    "1 \<le> month example_fix" "month example_fix \<le> 12"
    by (simp_all add: example_fix_def)
  have e: "PPSavailable example_sys \<longrightarrow>
         PPSsignal example_sys \<or> (isr_attached example_sys \<and> (\<exists>k. example_irq k))"
    by (auto simp: example_sys_def example_irq_def)
  have u: "unix_epoch_seconds example_fix = 1704067200"
    by (simp add: unix_epoch_seconds_def days_from_civil_def leaps_def example_fix_def)
  from C1_epoch_seconds_plus_one[OF h, of example_irq example_sys] e
  have "\<exists>s' evs. readGPSTime example_fix example_irq example_sys = Some (Updated, s', evs)
         \<and> clock s' = \<lparr>tv_sec = unix_epoch_seconds example_fix + 1, tv_usec = 0\<rparr>"
    by blast
  moreover have "isr_attached example_sys" "example_irq 3"
    by (simp_all add: example_sys_def example_irq_def)
  ultimately show ?thesis using h by (simp add: u)
qed

text \<open>
  C6: a fix whose date or time is not valid leaves the clock as it is and the outcome
  is \<open>Skipped\<close>; so do two such calls in a row.
\<close>

theorem C6_invalid_fix_skipped:
  assumes "\<not> time_valid fx1 \<or> \<not> date_valid fx1" and "\<not> time_valid fx2 \<or> \<not> date_valid fx2"
  shows "\<exists>s1 evs1 s2 evs2.
           readGPSTime fx1 irq1 s = Some (Skipped, s1, evs1) \<and> clock s1 = clock s
         \<and> readGPSTime fx2 irq2 s1 = Some (Skipped, s2, evs2) \<and> clock s2 = clock s"
  using readGPSTime_skip[OF assms(1), of irq1 s] readGPSTime_skip[OF assms(2), of irq2 s]
  by simp

theorem C6_witness:
  "\<not> date_valid example_invalid_fix
   \<and> (\<exists>s1 evs1 s2 evs2.
           readGPSTime example_invalid_fix example_irq example_sys = Some (Skipped, s1, evs1)
         \<and> clock s1 = \<lparr>tv_sec = 86400, tv_usec = 0\<rparr>
         \<and> readGPSTime example_invalid_fix (\<lambda>k. True) s1 = Some (Skipped, s2, evs2)
         \<and> clock s2 = \<lparr>tv_sec = 86400, tv_usec = 0\<rparr>)"
proof -
  have h: "\<not> time_valid example_invalid_fix \<or> \<not> date_valid example_invalid_fix"
    by (simp add: example_invalid_fix_def)
  have c: "clock example_sys = \<lparr>tv_sec = 86400, tv_usec = 0\<rparr>"
    by (simp add: example_sys_def)
  have d: "\<not> date_valid example_invalid_fix"
    by (simp add: example_invalid_fix_def)
  from d C6_invalid_fix_skipped[OF h h, of example_irq example_sys "\<lambda>k. True"]
  show ?thesis unfolding c by (rule conjI)
qed

text \<open>
  C7, as amended: with PPS available and a valid fix, the clock is written only after the
  latch has been read set and then cleared. The update returns exactly when the latch is
  set at entry or an edge arrives; what it did to the shared variables is then: some
  reads of the latch that found it clear, one that found it set, the write that clears
  it, and then the write of the clock. The latch is clear right after the clearing
  write; when the update returns it is set again exactly when a further edge has arrived
  since that write (the sketch masks no interrupt there), and clear otherwise. When no
  edge ever arrives the update does not return and the clock is never written.
\<close>

theorem C7_clock_written_after_latch:
  assumes "PPSavailable s" and "time_valid fx" and "date_valid fx"
  shows "(readGPSTime fx irq s = None \<longleftrightarrow> \<not> PPSsignal s \<and> \<not> (isr_attached s \<and> (\<exists>k. irq k)))
       \<and> (\<forall>out s' evs. readGPSTime fx irq s = Some (out, s', evs) \<longrightarrow>
            out = Updated
            \<and> (\<exists>n. evs = replicate n (LatchRead False)
                          @ [LatchRead True, LatchWrite False, ClockWrite (clock s')]
                   \<and> (PPSsignal s' \<longleftrightarrow> isr_attached s \<and> irq (n + 2))))"
proof (cases "wait_PPS irq 0 s []")
  case None
  then have "readGPSTime fx irq s = None"
    using assms by (simp add: readGPSTime_pps)
  moreover from None have "\<not> PPSsignal s \<and> \<not> (isr_attached s \<and> (\<exists>k. irq k))"
    by (simp add: wait_PPS_None_iff)
  ultimately show ?thesis by simp
next
  case (Some r)
  define s' where "s' = s\<lparr>PPSsignal := (isr_attached s \<and> irq (fst r + 2)), clock := fix_timeval fx\<rparr>"
  have run: "readGPSTime fx irq s =
      Some (Updated, s',
            replicate (fst r) (LatchRead False)
              @ [LatchRead True, LatchWrite False, ClockWrite (fix_timeval fx)])"
    unfolding s'_def by (rule readGPSTime_pps_run[OF assms(2,3,1) Some])
  have ret: "\<not> (\<not> PPSsignal s \<and> \<not> (isr_attached s \<and> (\<exists>k. irq k)))"
    using Some wait_PPS_None_iff[of irq 0 s "[]"] by simp
  have "replicate (fst r) (LatchRead False)
            @ [LatchRead True, LatchWrite False, ClockWrite (fix_timeval fx)]
          = replicate (fst r) (LatchRead False)
            @ [LatchRead True, LatchWrite False, ClockWrite (clock s')]
        \<and> (PPSsignal s' \<longleftrightarrow> isr_attached s \<and> irq (fst r + 2))"
    by (simp add: s'_def)
  then have "\<exists>n. replicate (fst r) (LatchRead False)
            @ [LatchRead True, LatchWrite False, ClockWrite (fix_timeval fx)]
          = replicate n (LatchRead False)
            @ [LatchRead True, LatchWrite False, ClockWrite (clock s')]
        \<and> (PPSsignal s' \<longleftrightarrow> isr_attached s \<and> irq (n + 2))" ..
  with ret show ?thesis
    unfolding run by simp
qed

text \<open>
  The run of the example: the edge of interval 3 ends the wait at the fourth test, no
  edge follows, and the latch is clear at the return.
\<close>

theorem C7_witness:
  "PPSavailable example_sys \<and> time_valid example_fix \<and> date_valid example_fix
   \<and> readGPSTime example_fix example_irq example_sys =
       Some (Updated, example_sys\<lparr>clock := \<lparr>tv_sec = 1704067201, tv_usec = 0\<rparr>\<rparr>,
             [LatchRead False, LatchRead False, LatchRead False, LatchRead True,
              LatchWrite False, ClockWrite \<lparr>tv_sec = 1704067201, tv_usec = 0\<rparr>])
   \<and> \<not> PPSsignal (example_sys\<lparr>clock := \<lparr>tv_sec = 1704067201, tv_usec = 0\<rparr>\<rparr>)
   \<and> \<not> example_irq 5"
proof -
  have h: "PPSavailable example_sys" "time_valid example_fix" "date_valid example_fix"
    by (simp_all add: example_sys_def example_fix_def)
  have tv: "fix_timeval example_fix = \<lparr>tv_sec = 1704067201, tv_usec = 0\<rparr>"
    by code_simp
  have w: "wait_PPS example_irq 0 example_sys [] =
      Some (3, example_sys\<lparr>PPSsignal := True\<rparr>,
            [LatchRead False, LatchRead False, LatchRead False, LatchRead True])"
    by (simp add: wait_PPS.simps pps_edge_def example_irq_def example_sys_def PPS_ISR_def)
  have run: "readGPSTime example_fix example_irq example_sys =
       Some (Updated, example_sys\<lparr>clock := \<lparr>tv_sec = 1704067201, tv_usec = 0\<rparr>\<rparr>,
             [LatchRead False, LatchRead False, LatchRead False, LatchRead True,
              LatchWrite False, ClockWrite \<lparr>tv_sec = 1704067201, tv_usec = 0\<rparr>])"
    by (simp add: readGPSTime_pps[OF h(2,3,1)] w tv settimeofday_def pps_edge_def
          example_irq_def PPS_ISR_def) (simp add: example_sys_def)
  from C7_clock_written_after_latch[OF h, of example_irq] run
  obtain n where
    n: "[LatchRead False, LatchRead False, LatchRead False, LatchRead True,
         LatchWrite False, ClockWrite \<lparr>tv_sec = 1704067201, tv_usec = 0\<rparr>]
        = replicate n (LatchRead False)
          @ [LatchRead True, LatchWrite False,
             ClockWrite (clock (example_sys\<lparr>clock := \<lparr>tv_sec = 1704067201, tv_usec = 0\<rparr>\<rparr>))]"
    and l: "PPSsignal (example_sys\<lparr>clock := \<lparr>tv_sec = 1704067201, tv_usec = 0\<rparr>\<rparr>)
        \<longleftrightarrow> isr_attached example_sys \<and> example_irq (n + 2)"
    by blast
  from arg_cong[OF n, of length] have "n = 3" by simp
  with l have "\<not> PPSsignal (example_sys\<lparr>clock := \<lparr>tv_sec = 1704067201, tv_usec = 0\<rparr>\<rparr>)"
    by (simp add: example_irq_def)
  moreover have "\<not> example_irq 5" by (simp add: example_irq_def)
  ultimately show ?thesis using h run by simp
qed

text \<open>
  The claim as stated, with the latch clear whenever the update has completed, fails
  when a second edge arrives between the clearing write of line 292 and the return: the
  handler sets the latch again, and the update returns with the clock set and the latch
  set.
\<close>

theorem C7_counterexample:
  "PPSavailable example_sys \<and> time_valid example_fix \<and> date_valid example_fix
   \<and> readGPSTime example_fix example_irq_late example_sys =
       Some (Updated,
             example_sys\<lparr>PPSsignal := True, clock := \<lparr>tv_sec = 1704067201, tv_usec = 0\<rparr>\<rparr>,
             [LatchRead False, LatchRead False, LatchRead False, LatchRead True,
              LatchWrite False, ClockWrite \<lparr>tv_sec = 1704067201, tv_usec = 0\<rparr>])
   \<and> PPSsignal (example_sys\<lparr>PPSsignal := True, clock := \<lparr>tv_sec = 1704067201, tv_usec = 0\<rparr>\<rparr>)"
proof -
  have h: "PPSavailable example_sys" "time_valid example_fix" "date_valid example_fix"
    by (simp_all add: example_sys_def example_fix_def)
  have tv: "fix_timeval example_fix = \<lparr>tv_sec = 1704067201, tv_usec = 0\<rparr>"
    by code_simp
  have w: "wait_PPS example_irq_late 0 example_sys [] =
      Some (3, example_sys\<lparr>PPSsignal := True\<rparr>,
            [LatchRead False, LatchRead False, LatchRead False, LatchRead True])"
    by (simp add: wait_PPS.simps pps_edge_def example_irq_late_def example_sys_def PPS_ISR_def)
  have run: "readGPSTime example_fix example_irq_late example_sys =
       Some (Updated,
             example_sys\<lparr>PPSsignal := True, clock := \<lparr>tv_sec = 1704067201, tv_usec = 0\<rparr>\<rparr>,
             [LatchRead False, LatchRead False, LatchRead False, LatchRead True,
              LatchWrite False, ClockWrite \<lparr>tv_sec = 1704067201, tv_usec = 0\<rparr>])"
    by (simp add: readGPSTime_pps[OF h(2,3,1)] w tv settimeofday_def pps_edge_def
          example_irq_late_def PPS_ISR_def) (simp add: example_sys_def)
  with h show ?thesis by simp
qed

text \<open>
  C10: on the \<open>Skipped\<close> path the update neither reads nor writes the latch: the state
  is unchanged whatever the PPS line does, so an edge latched while the fix is invalid
  stays latched. The latch is read, and cleared, only on the path of a valid fix with
  PPS available.
\<close>

theorem C10_latch_untouched_when_skipped:
  "(\<not> time_valid fx \<or> \<not> date_valid fx \<longrightarrow> readGPSTime fx irq s = Some (Skipped, s, []))
   \<and> (\<forall>out s' evs. readGPSTime fx irq s = Some (out, s', evs) \<longrightarrow>
        (out = Skipped \<longrightarrow> evs = [] \<and> PPSsignal s' = PPSsignal s)
      \<and> (LatchWrite False \<in> set evs \<longleftrightarrow> time_valid fx \<and> date_valid fx \<and> PPSavailable s)
      \<and> ((\<exists>b. LatchRead b \<in> set evs) \<longrightarrow> time_valid fx \<and> date_valid fx \<and> PPSavailable s))"
proof (cases "time_valid fx \<and> date_valid fx")
  case False
  then have "readGPSTime fx irq s = Some (Skipped, s, [])"
    by (simp add: readGPSTime_skip)
  with False show ?thesis by auto
next
  case valid: True
  show ?thesis
  proof (cases "PPSavailable s")
    case False
    with valid show ?thesis by (simp add: readGPSTime_no_pps)
  next
    case True
    show ?thesis
    proof (cases "wait_PPS irq 0 s []")
      case None
      with valid True show ?thesis by (simp add: readGPSTime_pps)
    next
      case (Some r)
      from valid have v: "time_valid fx" "date_valid fx" by simp_all
      from readGPSTime_pps_run[OF v True Some] valid True show ?thesis by simp
    qed
  qed
qed

theorem C10_witness:
  "\<not> date_valid example_invalid_fix
   \<and> readGPSTime example_invalid_fix example_irq example_pending = Some (Skipped, example_pending, [])
   \<and> PPSsignal example_pending"
proof -
  have h: "\<not> time_valid example_invalid_fix \<or> \<not> date_valid example_invalid_fix"
    by (simp add: example_invalid_fix_def)
  from C10_latch_untouched_when_skipped[of example_invalid_fix example_irq example_pending] h
  have "readGPSTime example_invalid_fix example_irq example_pending = Some (Skipped, example_pending, [])"
    by blast
  then show ?thesis by (simp add: example_pending_def example_invalid_fix_def)
qed


section \<open>The start-up probe: properties\<close>

declare probe_loop.simps [simp del]

lemma millis_diff:
  assumes "i < 2 ^ 32"
  shows "unat (millis (t + i) - millis t) = i"
proof -
  have "millis (t + i) - millis t = (of_nat i :: u32)"
    by (simp add: millis_def)
  then show ?thesis using assms by (simp add: unat_of_nat)
qed

lemma millis_window: "i \<le> 1500 \<Longrightarrow> (millis (t + i) - millis t < 1500) \<longleftrightarrow> i < 1500"
proof -
  assume "i \<le> 1500"
  then have "unat (millis (t + i) - millis t) = i"
    by (intro millis_diff) simp
  then show ?thesis by (simp add: word_less_nat_alt)
qed

lemma probe_loop_spec:
  assumes "i \<le> 1500" and "\<forall>u. t0 \<le> u \<and> u < t0 + i \<longrightarrow> \<not> pin u"
  shows "probe_loop pin (millis t0) (t0 + i) s =
     (if \<exists>j<1500. pin (t0 + j)
      then (t0 + (LEAST j. pin (t0 + j)), s\<lparr>PPSavailable := True\<rparr>)
      else (t0 + 1500, s))"
  using assms
proof (induction "1500 - i" arbitrary: i)
  case 0
  then have i: "i = 1500" by simp
  have no: "\<not> (\<exists>j<1500. pin (t0 + j))"
  proof
    assume "\<exists>j<1500. pin (t0 + j)"
    then obtain j where "j < 1500" "pin (t0 + j)" by blast
    with "0.prems"(2) i show False by auto
  qed
  have "\<not> millis (t0 + i) - millis t0 < 1500"
    using millis_window[of i t0] i by simp
  then show ?case using no unfolding i by (subst probe_loop.simps) (simp only: if_not_P, simp)
next
  case (Suc n)
  then have lt: "i < 1500" by simp
  then have w: "millis (t0 + i) - millis t0 < 1500"
    using millis_window[of i t0] by simp
  show ?case
  proof (cases "pin (t0 + i)")
    case True
    have least: "(LEAST j. pin (t0 + j)) = i"
    proof (rule Least_equality)
      show "pin (t0 + i)" by (rule True)
    next
      fix y assume "pin (t0 + y)"
      show "i \<le> y"
      proof (rule ccontr)
        assume "\<not> i \<le> y"
        then have "t0 \<le> t0 + y \<and> t0 + y < t0 + i" by simp
        with Suc.prems(2) \<open>pin (t0 + y)\<close> show False by blast
      qed
    qed
    have ex: "\<exists>j<1500. pin (t0 + j)" using True lt by blast
    show ?thesis using w True ex least by (subst probe_loop.simps) simp
  next
    case False
    have n: "n = 1500 - Suc i" using Suc.hyps(2) by simp
    have le: "Suc i \<le> 1500" using lt by simp
    have clear: "\<forall>u. t0 \<le> u \<and> u < t0 + Suc i \<longrightarrow> \<not> pin u"
    proof (intro allI impI)
      fix u assume u: "t0 \<le> u \<and> u < t0 + Suc i"
      show "\<not> pin u"
      proof (cases "u = t0 + i")
        case True then show ?thesis using False by simp
      next
        case False
        with u have "t0 \<le> u \<and> u < t0 + i" by simp
        with Suc.prems(2) show ?thesis by blast
      qed
    qed
    from Suc.hyps(1)[OF n le clear] w False show ?thesis
      by (subst probe_loop.simps) simp
  qed
qed


lemma initPPS_spec:
  "initPPS pin t s =
     (if \<exists>j<1500. pin (t + j)
      then (t + (LEAST j. pin (t + j)), s\<lparr>PPSavailable := True, isr_attached := True\<rparr>)
      else (t + 1500, s\<lparr>PPSavailable := False\<rparr>))"
proof -
  have "probe_loop pin (millis t) (t + 0) (s\<lparr>PPSavailable := False\<rparr>) =
     (if \<exists>j<1500. pin (t + j)
      then (t + (LEAST j. pin (t + j)), s\<lparr>PPSavailable := False\<rparr>\<lparr>PPSavailable := True\<rparr>)
      else (t + 1500, s\<lparr>PPSavailable := False\<rparr>))"
    by (rule probe_loop_spec) auto
  then show ?thesis
    by (cases "\<exists>j<1500. pin (t + j)") (auto simp: initPPS_def Let_def)
qed

subsection \<open>Nothing that runs after start-up writes \<open>PPSavailable\<close>\<close>

lemma readGPSTime_PPSavailable:
  assumes "readGPSTime fx irq s = Some (out, s', evs)"
  shows "PPSavailable s' = PPSavailable s"
proof (cases "time_valid fx \<and> date_valid fx")
  case False
  with assms show ?thesis by (simp add: readGPSTime_skip)
next
  case valid: True
  show ?thesis
  proof (cases "PPSavailable s")
    case False
    with valid assms show ?thesis by (auto simp: readGPSTime_no_pps settimeofday_def)
  next
    case True
    show ?thesis
    proof (cases "wait_PPS irq 0 s []")
      case None
      with valid True assms show ?thesis by (simp add: readGPSTime_pps)
    next
      case (Some r)
      from valid have v: "time_valid fx" "date_valid fx" by simp_all
      from readGPSTime_pps_run[OF v True Some] assms show ?thesis by auto
    qed
  qed
qed

lemma sys_step_PPSavailable:
  assumes "sys_step x y"
  shows "PPSavailable (fst y) = PPSavailable (fst x)"
  using assms
proof cases
  case (isr_step s w)
  then show ?thesis by (simp add: PPS_ISR_def)
next
  case (gps_step fx irq s out s' evs w)
  then show ?thesis by (simp add: readGPSTime_PPSavailable)
next
  case (ntp_step wall junk pkt w out w' s)
  then show ?thesis by simp
qed

lemma sys_steps_PPSavailable:
  assumes "sys_step\<^sup>*\<^sup>* x y"
  shows "PPSavailable (fst y) = PPSavailable (fst x)"
  using assms
proof (induction rule: rtranclp_induct)
  case base
  show ?case by simp
next
  case (step y z)
  then show ?case by (simp add: sys_step_PPSavailable)
qed

text \<open>
  C8: the probe samples the PPS line once every millisecond from its start: it stops
  with \<open>PPSavailable\<close> true at the first sample that is high, within the window of
  1500 ms, and with \<open>PPSavailable\<close> false after 1500 ms when no sample in the window
  is high. Whatever runs afterwards (the interrupt handler, the clock update, the NTP
  responder, in any order and any number of times) leaves \<open>PPSavailable\<close> as the probe
  set it.
\<close>

theorem C8_probe_window:
  assumes "initPPS pin t s = (t', s')"
  shows "(PPSavailable s' \<longleftrightarrow> (\<exists>j<1500. pin (t + j)))
       \<and> (PPSavailable s' \<longrightarrow> pin t' \<and> t \<le> t' \<and> t' < t + 1500 \<and> (\<forall>u. t \<le> u \<and> u < t' \<longrightarrow> \<not> pin u))
       \<and> (\<not> PPSavailable s' \<longrightarrow> t' = t + 1500)
       \<and> (\<forall>w s'' w''. sys_step\<^sup>*\<^sup>* (s', w) (s'', w'') \<longrightarrow> PPSavailable s'' = PPSavailable s')"
proof -
  have inv: "\<forall>w s'' w''. sys_step\<^sup>*\<^sup>* (s', w) (s'', w'') \<longrightarrow> PPSavailable s'' = PPSavailable s'"
    using sys_steps_PPSavailable by fastforce
  show ?thesis
  proof (cases "\<exists>j<1500. pin (t + j)")
    case True
    then obtain j where j: "j < 1500" "pin (t + j)" by blast
    define l where "l = (LEAST j. pin (t + j))"
    have l1: "pin (t + l)" unfolding l_def using j(2) by (rule LeastI)
    have l2: "l \<le> j" unfolding l_def using j(2) by (rule Least_le)
    have l3: "\<not> pin (t + i)" if "i < l" for i
      using that not_less_Least[of i "\<lambda>j. pin (t + j)"] by (simp add: l_def)
    from assms True have res: "t' = t + l" "s' = s\<lparr>PPSavailable := True, isr_attached := True\<rparr>"
      by (simp_all add: initPPS_spec l_def)
    have clear: "\<forall>u. t \<le> u \<and> u < t' \<longrightarrow> \<not> pin u"
    proof (intro allI impI)
      fix u assume "t \<le> u \<and> u < t'"
      then have "u - t < l" "u = t + (u - t)" using res(1) by auto
      with l3[of "u - t"] show "\<not> pin u" by simp
    qed
    have "PPSavailable s'" by (simp add: res)
    moreover have "pin t'" "t \<le> t'" "t' < t + 1500" using l1 l2 j(1) by (simp_all add: res)
    ultimately show ?thesis using True clear inv by blast
  next
    case False
    with assms have "t' = t + 1500" "s' = s\<lparr>PPSavailable := False\<rparr>"
      by (simp_all add: initPPS_spec)
    then have "\<not> PPSavailable s'" by simp
    with False \<open>t' = t + 1500\<close> inv show ?thesis by blast
  qed
qed

theorem C8_witness:
  "initPPS example_pin 1000 example_pending =
      (1005, example_pending\<lparr>PPSavailable := True, isr_attached := True\<rparr>)
   \<and> (\<exists>j<1500. example_pin (1000 + j))
   \<and> PPSavailable (PPS_ISR (example_pending\<lparr>PPSavailable := True, isr_attached := True\<rparr>))"
proof -
  have run: "initPPS example_pin 1000 example_pending =
      (1005, example_pending\<lparr>PPSavailable := True, isr_attached := True\<rparr>)"
    by (simp add: initPPS_def probe_loop.simps millis_def example_pin_def example_pending_def)
  have "sys_step (example_pending\<lparr>PPSavailable := True, isr_attached := True\<rparr>, example_net)
     (PPS_ISR (example_pending\<lparr>PPSavailable := True, isr_attached := True\<rparr>), example_net)"
    by (rule isr_step) simp
  then have "sys_step\<^sup>*\<^sup>* (example_pending\<lparr>PPSavailable := True, isr_attached := True\<rparr>, example_net)
     (PPS_ISR (example_pending\<lparr>PPSavailable := True, isr_attached := True\<rparr>), example_net)"
    by (rule r_into_rtranclp)
  moreover note C8_probe_window[OF run]
  ultimately have "PPSavailable (PPS_ISR (example_pending\<lparr>PPSavailable := True, isr_attached := True\<rparr>))
      = PPSavailable (example_pending\<lparr>PPSavailable := True, isr_attached := True\<rparr>)"
    and "PPSavailable (example_pending\<lparr>PPSavailable := True, isr_attached := True\<rparr>)
      = (\<exists>j<1500. example_pin (1000 + j))"
    by blast+
  with run show ?thesis by simp
qed


section \<open>The timestamp encoding: properties\<close>

subsection \<open>Rounding to a double\<close>

lemma rne_ge: "of_int z \<le> q \<Longrightarrow> z \<le> rne q"
proof -
  assume "of_int z \<le> q"
  then have "z \<le> \<lfloor>q\<rfloor>" by (simp add: le_floor_iff)
  moreover have "\<lfloor>q\<rfloor> \<le> rne q" by (simp add: rne_def Let_def)
  ultimately show ?thesis by simp
qed

lemma rne_le: "of_int (rne q) \<le> q + 1 / 2"
proof -
  have f: "of_int \<lfloor>q\<rfloor> \<le> q" by simp
  show ?thesis
  proof (cases "q - of_int \<lfloor>q\<rfloor> < 1 / 2")
    case True
    then have "rne q = \<lfloor>q\<rfloor>" by (simp add: rne_def Let_def)
    moreover have "of_int \<lfloor>q\<rfloor> \<le> q + 1 / 2"
      using of_int_floor_le[of q] by linarith
    ultimately show ?thesis by simp
  next
    case False
    then have "of_int \<lfloor>q\<rfloor> + 1 \<le> q + 1 / 2" by linarith
    moreover have "rne q \<le> \<lfloor>q\<rfloor> + 1" by (simp add: rne_def Let_def)
    then have "(of_int (rne q) :: rat) \<le> of_int \<lfloor>q\<rfloor> + 1"
      by (metis of_int_le_iff of_int_add of_int_1)
    ultimately show ?thesis by simp
  qed
qed

lemma scale_const: "double_div 4294967296 1000000 = 4722366482869645 / 1099511627776"
  by code_simp

lemma round_double_0: "round_double 0 = 0"
  by (simp add: round_double_def)

text \<open>
  In the range of the fractions a double is a multiple of \<open>1 / S\<close> for a power of two
  \<open>S\<close> of at least \<open>2^21\<close>, with a significand \<open>x * S\<close> below \<open>2^53\<close>.
\<close>

lemma round_double_scaled:
  assumes "1 \<le> x" and "x < 4294967296"
  obtains S :: int where "2097152 \<le> S"
    and "x * of_int S < 9007199254740992"
    and "round_double x = of_int (rne (x * of_int S)) / of_int S"
proof -
  define e where "e = ilog2 \<bar>x\<bar>"
  have ax: "\<bar>x\<bar> = x" using assms(1) by simp
  have fl: "1 \<le> \<lfloor>x\<rfloor>" "\<lfloor>x\<rfloor> < 2 ^ 32"
    using assms by (simp_all add: le_floor_iff floor_less_iff)
  have e: "e = bitlen \<lfloor>x\<rfloor> - 1"
    using assms(1) by (simp add: e_def ax ilog2_def)
  have "1 \<le> bitlen \<lfloor>x\<rfloor>"
    using fl(1) by (simp add: bitlen_ge_iff_power)
  moreover have "bitlen \<lfloor>x\<rfloor> \<le> 32"
    using fl(2) by (simp add: bitlen_le_iff_power)
  ultimately have eb: "0 \<le> e" "e \<le> 31" by (simp_all add: e)
  define S :: int where "S = 2 ^ nat (52 - e)"
  have "(2::int) ^ 21 \<le> 2 ^ nat (52 - e)"
    using eb by (intro power_increasing) simp_all
  then have S21: "2097152 \<le> S" by (simp add: S_def)
  have "\<lfloor>x\<rfloor> < 2 ^ nat (bitlen \<lfloor>x\<rfloor>)"
    using bitlen_bounds[of "\<lfloor>x\<rfloor>"] fl(1) by simp
  then have "\<lfloor>x\<rfloor> < 2 ^ nat (e + 1)" by (simp add: e)
  then have "x < of_int (2 ^ nat (e + 1))" by (simp only: floor_less_iff)
  moreover have "(0::rat) < of_int S" using S21 by simp
  ultimately have "x * of_int S < of_int (2 ^ nat (e + 1)) * of_int S"
    by (simp only: mult_strict_right_mono)
  also have "\<dots> = of_int (2 ^ nat (e + 1) * 2 ^ nat (52 - e))"
    by (simp add: S_def)
  also have "(2::int) ^ nat (e + 1) * 2 ^ nat (52 - e) = 2 ^ (nat (e + 1) + nat (52 - e))"
    by (simp add: power_add)
  also have "nat (e + 1) + nat (52 - e) = 53" using eb by simp
  finally have sig: "x * of_int S < 9007199254740992" by simp
  have mx: "max e (- 1022) = e" using eb by simp
  have ulp: "pow2 (e - 52) = 1 / of_int S"
    using eb by (simp add: pow2_def S_def)
  have x0: "x \<noteq> 0" using assms(1) by simp
  have "round_double x = of_int (rne (x / (1 / of_int S))) * (1 / of_int S)"
    using x0 by (simp add: round_double_def Let_def e_def[symmetric] mx ulp)
  then have "round_double x = of_int (rne (x * of_int S)) / of_int S"
    by simp
  with S21 sig show ?thesis by (rule that)
qed

lemma round_double_between:
  assumes "1 \<le> x" and "x < 4294967296"
    and lo: "of_int n \<le> x" and hi: "x + 1 / 4194304 < of_int n + 1"
  shows "\<lfloor>round_double x\<rfloor> = n"
proof -
  from round_double_scaled[OF assms(1,2)] obtain S :: int where
    S: "2097152 \<le> S" and rd: "round_double x = of_int (rne (x * of_int S)) / of_int S"
    by blast
  have Spos: "(0::rat) < of_int S" using S by simp
  have "of_int (n * S) \<le> x * of_int S"
    using lo Spos by (simp add: mult_right_mono)
  then have "n * S \<le> rne (x * of_int S)" by (rule rne_ge)
  then have "(of_int (n * S) :: rat) \<le> of_int (rne (x * of_int S))"
    by (simp only: of_int_le_iff)
  then have lower: "of_int n \<le> round_double x"
    unfolding rd using Spos by (simp add: pos_le_divide_eq)
  have "round_double x \<le> (x * of_int S + 1 / 2) / of_int S"
    unfolding rd using rne_le[of "x * of_int S"] Spos by (simp add: divide_right_mono)
  also have "\<dots> = x + 1 / (2 * of_int S)"
    using Spos by (simp add: field_simps)
  also have "\<dots> \<le> x + 1 / 4194304"
  proof -
    have "(4194304::rat) \<le> 2 * of_int S" using S by simp
    then have "1 / (2 * of_int S) \<le> (1::rat) / 4194304"
      by (intro divide_left_mono) simp_all
    then show ?thesis by simp
  qed
  finally have upper: "round_double x < of_int n + 1" using hi by simp
  from lower upper show ?thesis by (simp add: floor_unique)
qed

lemma frac_generic:
  fixes u :: int
  assumes u: "0 < u" "u < 1000000" and k: "(u * 67108864) mod 15625 \<noteq> 0"
  shows "\<lfloor>round_double (of_int u * (4722366482869645 / 1099511627776))\<rfloor> = (u * 67108864) div 15625"
proof -
  define N where "N = u * 67108864"
  define n where "n = N div 15625"
  define r where "r = N mod 15625"
  define a where "a = u * 4722366482869645"
  have N: "N = 15625 * n + r" by (simp add: n_def r_def)
  have r: "1 \<le> r" "r \<le> 15624"
    using k pos_mod_sign[of 15625 N] pos_mod_bound[of 15625 N] by (simp_all add: r_def N_def)
  have a15: "15625 * a = N * 1099511627776 - 3339 * u"
    by (simp add: a_def N_def)
  have x: "of_int u * (4722366482869645 / 1099511627776) = (of_int a :: rat) / 1099511627776"
    by (simp add: a_def)
  have n0: "0 \<le> n" using u by (simp add: n_def N_def pos_imp_zdiv_nonneg_iff)
  have lo_int: "n * 1099511627776 \<le> a"
    using a15 N r u by linarith
  have "a + 262144 < n * 1099511627776 + 1099511627776"
    using a15 N r u by linarith
  then have hi_int: "a + 262144 < (n + 1) * 1099511627776"
    by (simp add: algebra_simps)
  have a_lo: "1099511627776 \<le> a" using u by (simp add: a_def)
  have a_hi: "a < 4294967296 * 1099511627776" using u by (simp add: a_def)
  have 1: "(1::rat) \<le> of_int a / 1099511627776"
    using a_lo by (simp add: pos_le_divide_eq)
  have 2: "(of_int a :: rat) / 1099511627776 < 4294967296"
    using a_hi by (simp add: pos_divide_less_eq)
  have 3: "(of_int n :: rat) \<le> of_int a / 1099511627776"
  proof -
    have "(of_int (n * 1099511627776) :: rat) \<le> of_int a"
      using lo_int by (simp only: of_int_le_iff)
    then show ?thesis by (simp add: pos_le_divide_eq)
  qed
  have 4: "(of_int a :: rat) / 1099511627776 + 1 / 4194304 < of_int n + 1"
  proof -
    have "(of_int (a + 262144) :: rat) < of_int ((n + 1) * 1099511627776)"
      using hi_int by (simp only: of_int_less_iff)
    then show ?thesis by (simp add: field_simps)
  qed
  show ?thesis
    unfolding x using round_double_between[OF 1 2 3 4] by (simp add: n_def N_def)
qed


lemma rne_near:
  assumes "of_int z - 1 / 2 < q" and "q \<le> of_int z"
  shows "rne q = z"
proof (cases "q = of_int z")
  case True
  then show ?thesis by (simp add: rne_def Let_def)
next
  case False
  with assms(2) have lt: "q < of_int z" by simp
  have "\<lfloor>q\<rfloor> = z - 1"
    using assms(1) lt by (intro floor_unique) simp_all
  then show ?thesis using assms(1) by (simp add: rne_def Let_def)
qed

lemma frac_multiple:
  fixes j :: int
  assumes j: "0 < j" "15625 * j < 1000000"
  shows "round_double (of_int (15625 * j) * (4722366482869645 / 1099511627776)) = of_int (j * 67108864)"
proof -
  define a where "a = j * 73786976294838203125"
  define x :: rat where "x = of_int a / 1099511627776"
  have x: "of_int (15625 * j) * (4722366482869645 / 1099511627776) = x"
    by (simp add: x_def a_def)
  have a_lo: "1099511627776 \<le> a" using j by (simp add: a_def)
  have a_hi: "a < 4294967296 * 1099511627776" using j by (simp add: a_def)
  have 1: "1 \<le> x" unfolding x_def using a_lo by (simp add: pos_le_divide_eq)
  have 2: "x < 4294967296" unfolding x_def using a_hi by (simp add: pos_divide_less_eq)
  from round_double_scaled[OF 1 2] obtain S :: int where
    S: "2097152 \<le> S" and sig: "x * of_int S < 9007199254740992"
    and rd: "round_double x = of_int (rne (x * of_int S)) / of_int S"
    by blast
  define T where "T = j * S"
  have xs: "x * of_int S = of_int (T * 73786976294838203125) / 1099511627776"
    by (simp add: x_def a_def T_def mult.assoc mult.commute mult.left_commute)
  have "(of_int (T * 73786976294838203125) :: rat) < 9007199254740992 * 1099511627776"
    using sig unfolding xs by (simp add: pos_divide_less_eq)
  then have "(of_int (T * 73786976294838203125) :: rat) < of_int (9007199254740992 * 1099511627776)"
    by simp
  then have Tb: "T * 73786976294838203125 < 9007199254740992 * 1099511627776"
    by (simp only: of_int_less_iff)
  have Tpos: "0 < T" using j S by (simp add: T_def)
  have T39: "3339 * T < 549755813888" using Tb by linarith
  have nS: "of_int (j * 67108864 * S) - x * of_int S = (of_int (3339 * T) :: rat) / 1099511627776"
    unfolding xs by (simp add: T_def field_simps)
  have "(of_int (3339 * T) :: rat) < of_int 549755813888"
    using T39 by (simp only: of_int_less_iff)
  then have "(of_int (3339 * T) :: rat) / 1099511627776 < 1 / 2"
    by simp
  moreover have "(0::rat) \<le> of_int (3339 * T) / 1099511627776"
    using Tpos by simp
  ultimately have "of_int (j * 67108864 * S) - 1 / 2 < x * of_int S"
    and "x * of_int S \<le> of_int (j * 67108864 * S)"
    using nS by linarith+
  then have "rne (x * of_int S) = j * 67108864 * S" by (rule rne_near)
  then have "round_double x = of_int (j * 67108864 * S) / of_int S" by (simp add: rd)
  also have "\<dots> = of_int (j * 67108864)" using S by simp
  finally show ?thesis unfolding x .
qed


lemma usec_multiple:
  fixes u :: int
  assumes "(u * 67108864) mod 15625 = 0"
  shows "\<exists>j. u = 15625 * j"
proof -
  have "coprime (15625::int) 67108864" by code_simp
  moreover have "(15625::int) dvd u * 67108864"
    using assms by (simp add: mod_eq_0_iff_dvd)
  ultimately have "(15625::int) dvd u"
    by (simp add: coprime_dvd_mult_left_iff)
  then show ?thesis by (auto simp: dvd_def)
qed

lemma fraction_floor:
  fixes u :: int
  assumes "0 \<le> u" and "u < 1000000"
  shows "0 \<le> round_double (of_int u * (4722366482869645 / 1099511627776))
       \<and> \<lfloor>round_double (of_int u * (4722366482869645 / 1099511627776))\<rfloor> = (u * 67108864) div 15625"
proof (cases "u = 0")
  case True
  then show ?thesis by (simp add: round_double_0)
next
  case False
  with assms have pos: "0 < u" by simp
  let ?d = "round_double (of_int u * (4722366482869645 / 1099511627776))"
  have n0: "0 \<le> (u * 67108864) div 15625"
    using pos by (simp add: pos_imp_zdiv_nonneg_iff)
  have fl: "\<lfloor>?d\<rfloor> = (u * 67108864) div 15625"
  proof (cases "(u * 67108864) mod 15625 = 0")
    case False
    then show ?thesis using pos assms(2) by (rule frac_generic[rotated 2])
  next
    case True
    from usec_multiple[OF True] obtain j where j: "u = 15625 * j" ..
    with pos assms(2) have "0 < j" "15625 * j < 1000000" by simp_all
    from frac_multiple[OF this] have "?d = of_int (j * 67108864)" unfolding j .
    then have "\<lfloor>?d\<rfloor> = j * 67108864" by (simp only: floor_of_int)
    moreover have "(u * 67108864) div 15625 = j * 67108864" by (simp add: j)
    ultimately show ?thesis by simp
  qed
  moreover have "0 \<le> ?d"
  proof -
    have "of_int \<lfloor>?d\<rfloor> \<le> ?d" by (rule of_int_floor_le)
    moreover have "(0::rat) \<le> of_int \<lfloor>?d\<rfloor>" using n0 fl by simp
    ultimately show ?thesis by linarith
  qed
  ultimately show ?thesis by simp
qed


subsection \<open>The fraction is the scaled microseconds, rounded down\<close>

lemma ntp_fraction_floor:
  assumes "0 \<le> tv_usec tv" and "tv_usec tv < 1000000"
  shows "uint (ntp_fraction tv) = (tv_usec tv * 4294967296) div 1000000"
proof -
  define u where "u = tv_usec tv"
  define n where "n = (u * 67108864) div 15625"
  from fraction_floor[of u] assms
  have d: "0 \<le> round_double (of_int u * (4722366482869645 / 1099511627776))"
    "\<lfloor>round_double (of_int u * (4722366482869645 / 1099511627776))\<rfloor> = n"
    by (simp_all add: u_def n_def)
  have "ntp_fraction tv = word_of_int n"
    using d by (simp add: ntp_fraction_def double_mul_def long_to_double_def scale_const
        double_to_uint32_def u_def)
  moreover have "0 \<le> n" using assms(1) by (simp add: n_def u_def pos_imp_zdiv_nonneg_iff)
  moreover have "n < 4294967296"
  proof -
    have "u * 67108864 < 4294967296 * 15625" using assms(2) by (simp add: u_def)
    then show ?thesis unfolding n_def by (simp add: div_less_iff_less_mult)
  qed
  ultimately have "uint (ntp_fraction tv) = n"
    by (simp add: uint_word_of_int)
  moreover have "(u * 4294967296) div 1000000 = n"
  proof -
    have "(64 * (u * 67108864)) div (64 * 15625) = (u * 67108864) div 15625"
      by (rule div_mult_mult1) simp
    then show ?thesis by (simp add: n_def mult.commute)
  qed
  ultimately show ?thesis by (simp add: u_def)
qed

lemma ntp_fraction_in_range:
  assumes "0 \<le> tv_usec tv" and "tv_usec tv < 1000000"
  shows "0 \<le> double_mul (long_to_double (tv_usec tv)) (double_div 4294967296 1000000)
       \<and> double_mul (long_to_double (tv_usec tv)) (double_div 4294967296 1000000) < 4294967296"
proof -
  let ?d = "round_double (of_int (tv_usec tv) * (4722366482869645 / 1099511627776))"
  from fraction_floor[OF assms] have d: "0 \<le> ?d"
    and fl: "\<lfloor>?d\<rfloor> = (tv_usec tv * 67108864) div 15625" by simp_all
  have "tv_usec tv * 67108864 < 4294967295 * 15625" using assms(2) by simp
  then have "(tv_usec tv * 67108864) div 15625 < 4294967295"
    by (simp add: div_less_iff_less_mult)
  with fl have "\<lfloor>?d\<rfloor> < 4294967295" by simp
  then have "?d < 4294967295" by (simp only: floor_less_iff of_int_numeral)
  with d show ?thesis
    by (simp add: double_mul_def long_to_double_def scale_const)
qed

subsection \<open>The eight bytes as a number\<close>

lemma foldl_be:
  "foldl (\<lambda>acc b. acc * 256 + unat b) a (ys :: u8 list) = a * 256 ^ length ys + be_value ys"
proof (induction ys rule: rev_induct)
  case Nil
  show ?case by (simp add: be_value_def)
next
  case (snoc y ys)
  have "foldl (\<lambda>acc b. acc * 256 + unat b) a (ys @ [y])
      = foldl (\<lambda>acc b. acc * 256 + unat b) a ys * 256 + unat y"
    by simp
  also have "\<dots> = (a * 256 ^ length ys + be_value ys) * 256 + unat y"
    by (simp only: snoc.IH)
  also have "\<dots> = a * 256 ^ length (ys @ [y]) + (be_value ys * 256 + unat y)"
    by (simp add: algebra_simps)
  also have "be_value ys * 256 + unat y = be_value (ys @ [y])"
    by (simp add: be_value_def)
  finally show ?case .
qed

lemma be_value_append:
  "be_value (xs @ ys) = be_value xs * 256 ^ length ys + be_value ys"
proof -
  have "be_value (xs @ ys) = foldl (\<lambda>acc b. acc * 256 + unat b) (be_value xs) ys"
    by (simp only: be_value_def foldl_append)
  also have "\<dots> = be_value xs * 256 ^ length ys + be_value ys"
    by (rule foldl_be)
  finally show ?thesis .
qed

lemma ntp_timestamp_value:
  assumes "0 \<le> tv_usec tv" and "tv_usec tv < 1000000"
  shows "be_value (ntp_timestamp tv) = ntp_fixed_point tv"
proof -
  have "uint (ntp_seconds tv) = (tv_sec tv + 2208988800) mod 4294967296"
    unfolding ntp_seconds_def by (simp only: uint_word_of_int) simp
  then have s: "unat (ntp_seconds tv) = nat ((tv_sec tv + 2208988800) mod 4294967296)"
    unfolding unat_eq_nat_uint by simp
  have f: "unat (ntp_fraction tv) = nat ((tv_usec tv * 4294967296) div 1000000)"
    unfolding unat_eq_nat_uint ntp_fraction_floor[OF assms] by (rule refl)
  have "be_value (ntp_timestamp tv) = unat (ntp_seconds tv) * 256 ^ 4 + unat (ntp_fraction tv)"
    unfolding ntp_timestamp_def be_value_append be_value_be32 length_be32 by (rule refl)
  also have "\<dots> = ntp_fixed_point tv"
    unfolding s f ntp_fixed_point_def by simp
  finally show ?thesis .
qed

lemma reply_timestamps:
  assumes "48 \<le> length (payload p)"
  shows "\<exists>resp. handleNTPRequest wall junk (Some p) w =
           (Replied, w\<lparr>tod_calls := tod_calls w + 2, sent := sent w @ [reply_to p resp]\<rparr>)
     \<and> field 16 8 resp = field 32 8 resp
     \<and> field 32 8 resp = ntp_timestamp (wall (tod_calls w))
     \<and> field 40 8 resp = ntp_timestamp (wall (tod_calls w + 1))"
proof -
  define rx where "rx = ntp_timestamp (wall (tod_calls w))"
  define tx where "tx = ntp_timestamp (wall (tod_calls w + 1))"
  define org where "org = field 40 8 (payload p)"
  define resp where "resp = [0x24, 1, payload p ! 2, 0xFA, 0, 0, 0, 0, 0, 0, 0, 0, 0x4C, 0x4F, 0x43, 0x4C]
           @ rx @ org @ rx @ tx"
  have len: "length org = 8" "length rx = 8" "length tx = 8"
    using assms by (simp_all add: org_def rx_def tx_def field_def length_ntp_timestamp)
  have "handleNTPRequest wall junk (Some p) w =
           (Replied, w\<lparr>tod_calls := tod_calls w + 2, sent := sent w @ [reply_to p resp]\<rparr>)"
    unfolding resp_def rx_def tx_def org_def by (rule handleNTPRequest_reply[OF assms])
  moreover have "field 16 8 resp = rx" "field 32 8 resp = rx" "field 40 8 resp = tx"
    by (simp_all add: resp_def field_def len)
  ultimately show ?thesis unfolding rx_def tx_def by (intro exI[of _ resp]) simp
qed

text \<open>
  C2, as amended: the reference, receive and transmit timestamps of a reply are each a
  64-bit big-endian fixed-point number whose high 32 bits are the Unix seconds of the
  clock reading plus 2,208,988,800, as a 32-bit number, and whose low 32 bits are
  \<open>microseconds * 2^32 / 1,000,000\<close> rounded down, for every reading with microseconds in
  \<open>[0, 1,000,000)\<close>. The product is computed in \<^verbatim>\<open>double\<close> and cut to an integer by
  the cast to \<^verbatim>\<open>uint32_t\<close>; the result is exactly the quotient rounded down, not
  rounded to nearest.
\<close>

theorem C2_timestamp_encoding:
  assumes "48 \<le> length (payload p)"
    and "0 \<le> tv_usec (wall (tod_calls w))" and "tv_usec (wall (tod_calls w)) < 1000000"
    and "0 \<le> tv_usec (wall (tod_calls w + 1))" and "tv_usec (wall (tod_calls w + 1)) < 1000000"
  shows "\<exists>resp. handleNTPRequest wall junk (Some p) w =
           (Replied, w\<lparr>tod_calls := tod_calls w + 2, sent := sent w @ [reply_to p resp]\<rparr>)
     \<and> be_value (field 16 8 resp) = ntp_fixed_point (wall (tod_calls w))
     \<and> be_value (field 32 8 resp) = ntp_fixed_point (wall (tod_calls w))
     \<and> be_value (field 40 8 resp) = ntp_fixed_point (wall (tod_calls w + 1))
     \<and> ntp_fixed_point (wall (tod_calls w)) div 4294967296
           = nat ((tv_sec (wall (tod_calls w)) + 2208988800) mod 4294967296)
     \<and> ntp_fixed_point (wall (tod_calls w)) mod 4294967296
           = nat ((tv_usec (wall (tod_calls w)) * 4294967296) div 1000000)
     \<and> ntp_fixed_point (wall (tod_calls w + 1)) div 4294967296
           = nat ((tv_sec (wall (tod_calls w + 1)) + 2208988800) mod 4294967296)
     \<and> ntp_fixed_point (wall (tod_calls w + 1)) mod 4294967296
           = nat ((tv_usec (wall (tod_calls w + 1)) * 4294967296) div 1000000)"
proof -
  have split: "ntp_fixed_point tv div 4294967296 = nat ((tv_sec tv + 2208988800) mod 4294967296)
      \<and> ntp_fixed_point tv mod 4294967296 = nat ((tv_usec tv * 4294967296) div 1000000)"
    if "0 \<le> tv_usec tv" and "tv_usec tv < 1000000" for tv
  proof -
    have "0 \<le> (tv_usec tv * 4294967296) div 1000000"
      using that(1) by (simp add: pos_imp_zdiv_nonneg_iff)
    moreover have "(tv_usec tv * 4294967296) div 1000000 < 4294967296"
    proof -
      have "tv_usec tv * 4294967296 < 4294967296 * 1000000" using that(2) by simp
      then show ?thesis by (simp add: div_less_iff_less_mult)
    qed
    ultimately have "nat ((tv_usec tv * 4294967296) div 1000000) < 4294967296" by simp
    then show ?thesis by (simp add: ntp_fixed_point_def)
  qed
  from reply_timestamps[OF assms(1), of wall junk w] obtain resp where
    run: "handleNTPRequest wall junk (Some p) w =
           (Replied, w\<lparr>tod_calls := tod_calls w + 2, sent := sent w @ [reply_to p resp]\<rparr>)"
    and f16: "field 16 8 resp = field 32 8 resp"
    and f32: "field 32 8 resp = ntp_timestamp (wall (tod_calls w))"
    and f40: "field 40 8 resp = ntp_timestamp (wall (tod_calls w + 1))"
    by blast
  have B: "be_value (field 32 8 resp) = ntp_fixed_point (wall (tod_calls w))"
    unfolding f32 by (rule ntp_timestamp_value[OF assms(2,3)])
  have A: "be_value (field 16 8 resp) = ntp_fixed_point (wall (tod_calls w))"
    unfolding f16 by (rule B)
  have C: "be_value (field 40 8 resp) = ntp_fixed_point (wall (tod_calls w + 1))"
    unfolding f40 by (rule ntp_timestamp_value[OF assms(4,5)])
  note s1 = split[OF assms(2,3)] and s2 = split[OF assms(4,5)]
  show ?thesis
    by (intro exI[of _ resp] conjI)
       (fact run A B C s1[THEN conjunct1] s1[THEN conjunct2] s2[THEN conjunct1] s2[THEN conjunct2])+
qed

theorem C2_witness:
  "48 \<le> length (payload example_request)
   \<and> 0 \<le> tv_usec (example_wall 0) \<and> tv_usec (example_wall 0) < 1000000
   \<and> 0 \<le> tv_usec (example_wall 1) \<and> tv_usec (example_wall 1) < 1000000
   \<and> (\<exists>resp. handleNTPRequest example_wall example_junk (Some example_request) example_net =
           (Replied, \<lparr>tod_calls = 2, sent = [reply_to example_request resp]\<rparr>)
      \<and> be_value (field 32 8 resp) = 3913056000 * 4294967296 + 1073741824
      \<and> be_value (field 40 8 resp) = 3913056000 * 4294967296 + 1140850688)"
proof -
  have h: "48 \<le> length (payload example_request)"
    "0 \<le> tv_usec (example_wall (tod_calls example_net))"
    "tv_usec (example_wall (tod_calls example_net)) < 1000000"
    "0 \<le> tv_usec (example_wall (tod_calls example_net + 1))"
    "tv_usec (example_wall (tod_calls example_net + 1)) < 1000000"
    by (simp_all add: example_request_def example_wall_def example_net_def)
  have v: "ntp_fixed_point (example_wall 0) = 3913056000 * 4294967296 + 1073741824"
    "ntp_fixed_point (example_wall 1) = 3913056000 * 4294967296 + 1140850688"
    by (simp_all add: ntp_fixed_point_def example_wall_def)
  from C2_timestamp_encoding[OF h, of example_junk]
  obtain resp where
    "handleNTPRequest example_wall example_junk (Some example_request) example_net =
       (Replied, example_net\<lparr>tod_calls := tod_calls example_net + 2,
          sent := sent example_net @ [reply_to example_request resp]\<rparr>)"
    and "be_value (field 32 8 resp) = ntp_fixed_point (example_wall (tod_calls example_net))"
    and "be_value (field 40 8 resp) = ntp_fixed_point (example_wall (tod_calls example_net + 1))"
    by blast
  then have "handleNTPRequest example_wall example_junk (Some example_request) example_net =
           (Replied, \<lparr>tod_calls = 2, sent = [reply_to example_request resp]\<rparr>)
      \<and> be_value (field 32 8 resp) = 3913056000 * 4294967296 + 1073741824
      \<and> be_value (field 40 8 resp) = 3913056000 * 4294967296 + 1140850688"
    using v by (simp add: example_net_def)
  then have "\<exists>resp. handleNTPRequest example_wall example_junk (Some example_request) example_net =
           (Replied, \<lparr>tod_calls = 2, sent = [reply_to example_request resp]\<rparr>)
      \<and> be_value (field 32 8 resp) = 3913056000 * 4294967296 + 1073741824
      \<and> be_value (field 40 8 resp) = 3913056000 * 4294967296 + 1140850688" ..
  moreover have "0 \<le> tv_usec (example_wall 0)" "tv_usec (example_wall 0) < 1000000"
    "0 \<le> tv_usec (example_wall 1)" "tv_usec (example_wall 1) < 1000000"
    by (simp_all add: example_wall_def)
  ultimately show ?thesis using h(1) by blast
qed

text \<open>
  The claim as stated, with \<open>round\<close>, fails one microsecond after the second: the
  fraction in the receive timestamp is 4294, and \<open>round (2^32 / 1,000,000) = 4295\<close>.
\<close>

theorem C2_counterexample:
  "int (be_value (field 36 4 (payload (last (sent (snd
      (handleNTPRequest example_wall_1us example_junk (Some example_request) example_net)))))))
     = 4294
   \<and> spec_fraction (tv_usec (example_wall_1us 0)) = 4295"
proof -
  have h: "48 \<le> length (payload example_request)"
    by (simp add: example_request_def)
  have fr: "ntp_fraction \<lparr>tv_sec = 1704067200, tv_usec = 1\<rparr> = 4294"
    by code_simp
  have org: "field 40 8 (payload example_request) = [0xAA, 0xBB, 0xCC, 0xDD, 0xEE, 0xFF, 0x00, 0x11]"
    by (simp add: example_request_def field_def)
  have "field 36 4 (payload (last (sent (snd
      (handleNTPRequest example_wall_1us example_junk (Some example_request) example_net)))))
      = be32 (ntp_fraction \<lparr>tv_sec = 1704067200, tv_usec = 1\<rparr>)"
    unfolding handleNTPRequest_reply[OF h] org
    by (simp add: reply_to_def field_def ntp_timestamp_def length_be32 example_wall_1us_def)
  then have "be_value (field 36 4 (payload (last (sent (snd
      (handleNTPRequest example_wall_1us example_junk (Some example_request) example_net))))))
      = unat (4294 :: u32)"
    by (simp only: be_value_be32 fr)
  moreover have "spec_fraction (tv_usec (example_wall_1us 0)) = 4295"
    unfolding example_wall_1us_def spec_fraction_def timeval.simps by code_simp
  ultimately show ?thesis by simp
qed

end
